theory Spec2Isabelle
  imports Main "HOL-Library.Word"
begin

section \<open>go-cmap: a segmented hash map with chained buckets\<close>

text \<open>
  The Go package keeps its key-element pairs in heap objects linked through \<open>next\<close>
  pointers, and mutates them in place. The embedding therefore carries an explicit store:
  pair objects live at addresses, a \<open>Pair\<close> interface value is an optional address
  (\<open>None\<close> is Go's \<open>nil\<close>), and every operation takes the store and returns the new one.
  Go's \<open>uint64\<close> is \<open>64 word\<close>, \<open>uint32\<close> is \<open>32 word\<close>; Go's \<open>int\<close> (64 bits on
  the platforms the package targets) is \<open>int\<close>, used only for lengths and indices.
\<close>

subsection \<open>Errors (errors.go)\<close>

datatype error =
    IllegalParameterError string
  | IllegalPairTypeError string
  | PairRedistributorError string

definition newIllegalParameterError :: "string \<Rightarrow> error" where
  "newIllegalParameterError errMsg =
     IllegalParameterError (''concurrent map: illegal parameter: '' @ errMsg)"

definition newPairRedistributorError :: "string \<Rightarrow> error" where
  "newPairRedistributorError errMsg =
     PairRedistributorError (''concurrent map: failing pair redistribution: '' @ errMsg)"

subsection \<open>Outcomes of a call\<close>

text \<open>
  A value a Go \<open>panic\<close> carries: either it implements \<open>error\<close> (run-time panics do) or it
  does not; the string is its \<open>Error()\<close> text, respectively its \<open>%s\<close> rendering.
\<close>

datatype panic_value = ErrorValue string | OtherValue string

text \<open>
  A call either returns a value, blocks forever on a mutex that is held, panics, or never
  leaves a loop. Each outcome carries the state the call has produced up to that point.
\<close>

datatype ('s, 'a) outcome =
    Returned 's 'a
  | Blocked 's
  | Panicked 's panic_value
  | Diverged 's

fun outcome_state :: "('s, 'a) outcome \<Rightarrow> 's" where
  "outcome_state (Returned s x) = s"
| "outcome_state (Blocked s) = s"
| "outcome_state (Panicked s v) = s"
| "outcome_state (Diverged s) = s"

fun map_state :: "('s \<Rightarrow> 't) \<Rightarrow> ('s, 'a) outcome \<Rightarrow> ('t, 'a) outcome" where
  "map_state f (Returned s x) = Returned (f s) x"
| "map_state f (Blocked s) = Blocked (f s)"
| "map_state f (Panicked s v) = Panicked (f s) v"
| "map_state f (Diverged s) = Diverged (f s)"

definition nil_dereference :: panic_value where
  "nil_dereference = ErrorValue ''runtime error: invalid memory address or nil pointer dereference''"

definition divide_by_zero :: panic_value where
  "divide_by_zero = ErrorValue ''runtime error: integer divide by zero''"

definition index_out_of_range :: panic_value where
  "index_out_of_range = ErrorValue ''runtime error: index out of range''"

definition negative_len :: panic_value where
  "negative_len = ErrorValue ''runtime error: makeslice: len out of range''"

definition unlock_of_unlocked :: panic_value where
  "unlock_of_unlocked = ErrorValue ''fatal error: sync: unlock of unlocked mutex''"

subsection \<open>sync.Mutex\<close>

text \<open>
  A mutex is the flag "held". \<open>Lock\<close> on a held mutex does not return (\<open>None\<close>): Go's
  mutex is not reentrant, so this is also what happens when the caller itself holds it.
  \<open>Unlock\<close> on a free mutex is a fatal run-time error (\<open>None\<close>).
\<close>

definition mutex_Lock :: "bool \<Rightarrow> bool option" where
  "mutex_Lock held = (if held then None else Some True)"

definition mutex_Unlock :: "bool \<Rightarrow> bool option" where
  "mutex_Unlock held = (if held then Some False else None)"

subsection \<open>Pairs (pair.go)\<close>

type_synonym addr = nat

record 'v pair =
  pair_key :: string
  pair_hash :: "64 word"
  pair_element :: "'v option"
  pair_next :: "addr option"

text \<open>
  The store: the pair object at every address, the first address not yet allocated, and
  the state of the pair redistributors (objects behind an interface, see below).
\<close>

record ('v, 'r) world =
  pairs :: "addr \<Rightarrow> 'v pair"
  free :: addr
  renv :: 'r

definition pair_Key :: "('v, 'r) world \<Rightarrow> addr \<Rightarrow> string" where
  "pair_Key w p = pair_key (pairs w p)"

definition pair_Hash :: "('v, 'r) world \<Rightarrow> addr \<Rightarrow> 64 word" where
  "pair_Hash w p = pair_hash (pairs w p)"

definition pair_Element :: "('v, 'r) world \<Rightarrow> addr \<Rightarrow> 'v option" where
  "pair_Element w p = pair_element (pairs w p)"

definition pair_SetElement ::
  "('v, 'r) world \<Rightarrow> addr \<Rightarrow> 'v option \<Rightarrow> ('v, 'r) world \<times> error option" where
  "pair_SetElement w p element =
     (case element of
        None \<Rightarrow> (w, Some (newIllegalParameterError ''element is nil''))
      | Some v \<Rightarrow> (w\<lparr>pairs := (pairs w)(p := (pairs w p)\<lparr>pair_element := Some v\<rparr>)\<rparr>, None))"

definition pair_Next :: "('v, 'r) world \<Rightarrow> addr \<Rightarrow> addr option" where
  "pair_Next w p = pair_next (pairs w p)"

text \<open>
  Every \<open>Pair\<close> of the model is a \<open>*pair\<close>, so the type assertion of \<open>SetNext\<close> succeeds
  and its \<open>IllegalPairTypeError\<close> branch is not reachable here.
\<close>

definition pair_SetNext ::
  "('v, 'r) world \<Rightarrow> addr \<Rightarrow> addr option \<Rightarrow> ('v, 'r) world \<times> error option" where
  "pair_SetNext w p nextPair =
     (w\<lparr>pairs := (pairs w)(p := (pairs w p)\<lparr>pair_next := nextPair\<rparr>)\<rparr>, None)"

text \<open>
  \<open>newPair\<close> takes the package's \<open>hash\<close> function, which is defined in another file of
  the package, as the parameter \<open>H\<close>. The object that Go allocates before it rejects a
  nil element is unreachable afterwards; the model allocates only on success.
\<close>

definition newPair ::
  "(string \<Rightarrow> 64 word) \<Rightarrow> ('v, 'r) world \<Rightarrow> string \<Rightarrow> 'v option
     \<Rightarrow> ('v, 'r) world \<times> addr option \<times> error option" where
  "newPair H w k element =
     (case element of
        None \<Rightarrow> (w, None, Some (newIllegalParameterError ''element is nil''))
      | Some v \<Rightarrow>
          (w\<lparr>pairs := (pairs w)(free w :=
                \<lparr>pair_key = k, pair_hash = H k, pair_element = Some v, pair_next = None\<rparr>),
             free := Suc (free w)\<rparr>,
           Some (free w), None))"

definition pair_Copy ::
  "(string \<Rightarrow> 64 word) \<Rightarrow> ('v, 'r) world \<Rightarrow> addr \<Rightarrow> ('v, 'r) world \<times> addr option" where
  "pair_Copy H w p =
     (case newPair H w (pair_Key w p) (pair_Element w p) of (w', pCopy, _) \<Rightarrow> (w', pCopy))"

subsection \<open>Buckets (bucket.go)\<close>

text \<open>
  \<open>placeholder\<close> is one pair object allocated when the package is loaded. The
  \<open>atomic.Value\<close> of a bucket holds nothing (\<open>None\<close>) or a \<open>Pair\<close>.
\<close>

definition placeholder :: addr where
  "placeholder = 0"

record bucket =
  bucket_firstValue :: "addr option"
  bucket_size :: "64 word"

definition bucket_GetFirstPair :: "bucket \<Rightarrow> addr option" where
  "bucket_GetFirstPair b =
     (case bucket_firstValue b of
        None \<Rightarrow> None
      | Some p \<Rightarrow> if p = placeholder then None else Some p)"

text \<open>
  The loop \<open>for v := firstPair; v != nil; v = v.Next()\<close> that stops at the first pair with
  the key, as \<open>Put\<close> and \<open>Get\<close> both write it. On a cyclic chain without the key it never
  ends, which is the value \<open>None\<close> here.
\<close>

partial_function (option) find_target ::
  "(addr \<Rightarrow> 'v pair) \<Rightarrow> string \<Rightarrow> addr option \<Rightarrow> addr option option" where
  "find_target h k v =
     (case v of
        None \<Rightarrow> Some None
      | Some a \<Rightarrow> if pair_key (h a) = k then Some (Some a) else find_target h k (pair_next (h a)))"

text \<open>
  \<open>Put\<close> and \<open>Delete\<close> take the caller's lock, or nil. With a lock they acquire it and
  release it by \<open>defer\<close>, so the lock is as before on every way out; what remains to
  model is that the call blocks when the lock is held.
\<close>

definition bucket_Put ::
  "('v, 'r) world \<Rightarrow> bucket \<Rightarrow> addr option \<Rightarrow> bool option
     \<Rightarrow> (('v, 'r) world \<times> bucket, bool \<times> error option) outcome" where
  "bucket_Put w b p lock =
     (case p of
        None \<Rightarrow> Returned (w, b) (False, Some (newIllegalParameterError ''pair is nil''))
      | Some pa \<Rightarrow>
          if lock = Some True then Blocked (w, b)
          else
            (case bucket_GetFirstPair b of
               None \<Rightarrow>
                 Returned (w, b\<lparr>bucket_firstValue := Some pa, bucket_size := bucket_size b + 1\<rparr>)
                   (True, None)
             | Some firstPair \<Rightarrow>
                 (case find_target (pairs w) (pair_Key w pa) (Some firstPair) of
                    None \<Rightarrow> Diverged (w, b)
                  | Some (Some target) \<Rightarrow>
                      Returned (fst (pair_SetElement w target (pair_Element w pa)), b) (False, None)
                  | Some None \<Rightarrow>
                      Returned
                        (fst (pair_SetNext w pa (Some firstPair)),
                         b\<lparr>bucket_firstValue := Some pa, bucket_size := bucket_size b + 1\<rparr>)
                        (True, None))))"

text \<open>
  The scan of \<open>Delete\<close>: the predecessors in order, the target, and the pair after it
  (\<open>breakpoint\<close>); target and breakpoint stay nil when the key is not met.
\<close>

partial_function (option) delete_scan ::
  "(addr \<Rightarrow> 'v pair) \<Rightarrow> string \<Rightarrow> addr option \<Rightarrow> addr list
     \<Rightarrow> (addr list \<times> addr option \<times> addr option) option" where
  "delete_scan h k v prevPairs =
     (case v of
        None \<Rightarrow> Some (prevPairs, None, None)
      | Some a \<Rightarrow>
          if pair_key (h a) = k then Some (prevPairs, Some a, pair_next (h a))
          else delete_scan h k (pair_next (h a)) (prevPairs @ [a]))"

text \<open>
  The rebuilding loop runs over \<open>prevPairs\<close> from the last index down to 0; the list
  argument here is \<open>prevPairs\<close> reversed. \<open>Copy\<close> drops the error of \<open>newPair\<close>, so the
  copy of a pair without element is nil and \<open>SetNext\<close> on it panics.
\<close>

fun delete_rebuild ::
  "(string \<Rightarrow> 64 word) \<Rightarrow> ('v, 'r) world \<Rightarrow> addr list \<Rightarrow> addr option
     \<Rightarrow> (('v, 'r) world, addr option) outcome" where
  "delete_rebuild H w [] newFirstPair = Returned w newFirstPair"
| "delete_rebuild H w (a # rest) newFirstPair =
     (case pair_Copy H w a of
        (w', None) \<Rightarrow> Panicked w' nil_dereference
      | (w', Some pairCopy) \<Rightarrow>
          delete_rebuild H (fst (pair_SetNext w' pairCopy newFirstPair)) rest (Some pairCopy))"

definition bucket_Delete ::
  "(string \<Rightarrow> 64 word) \<Rightarrow> ('v, 'r) world \<Rightarrow> bucket \<Rightarrow> string \<Rightarrow> bool option
     \<Rightarrow> (('v, 'r) world \<times> bucket, bool) outcome" where
  "bucket_Delete H w b k lock =
     (if lock = Some True then Blocked (w, b)
      else
        (case bucket_GetFirstPair b of
           None \<Rightarrow> Returned (w, b) False
         | Some firstPair \<Rightarrow>
             (case delete_scan (pairs w) k (Some firstPair) [] of
                None \<Rightarrow> Diverged (w, b)
              | Some (prevPairs, None, breakpoint) \<Rightarrow> Returned (w, b) False
              | Some (prevPairs, Some target, breakpoint) \<Rightarrow>
                  (case delete_rebuild H w (rev prevPairs) breakpoint of
                     Returned w' newFirstPair \<Rightarrow>
                       Returned
                         (w', b\<lparr>bucket_firstValue :=
                                   (case newFirstPair of
                                      Some n \<Rightarrow> Some n
                                    | None \<Rightarrow> Some placeholder),
                                 bucket_size := bucket_size b + (- 1)\<rparr>)
                         True
                   | Blocked w' \<Rightarrow> Blocked (w', b)
                   | Panicked w' v \<Rightarrow> Panicked (w', b) v
                   | Diverged w' \<Rightarrow> Diverged (w', b)))))"

definition bucket_Get ::
  "('v, 'r) world \<Rightarrow> bucket \<Rightarrow> string \<Rightarrow> (('v, 'r) world \<times> bucket, addr option) outcome" where
  "bucket_Get w b k =
     (case bucket_GetFirstPair b of
        None \<Rightarrow> Returned (w, b) None
      | Some firstPair \<Rightarrow>
          (case find_target (pairs w) k (Some firstPair) of
             None \<Rightarrow> Diverged (w, b)
           | Some r \<Rightarrow> Returned (w, b) r))"

definition bucket_Clear :: "bucket \<Rightarrow> bool option \<Rightarrow> (bucket, unit) outcome" where
  "bucket_Clear b lock =
     (if lock = Some True then Blocked b
      else Returned (b\<lparr>bucket_size := 0, bucket_firstValue := Some placeholder\<rparr>) ())"

definition bucket_Size :: "bucket \<Rightarrow> 64 word" where
  "bucket_Size b = bucket_size b"

definition newBucket :: bucket where
  "newBucket = \<lparr>bucket_firstValue = Some placeholder, bucket_size = 0\<rparr>"

subsection \<open>What the package takes from outside these files\<close>

text \<open>
  The string hash, the three constants and the \<open>PairRedistributor\<close> interface with its
  default implementation are declared in files that are not among the sources modelled
  here; they are parameters. A redistributor is an object behind an interface: it is
  named by a handle, its state is the component \<open>renv\<close> of the store, and each of
  its methods may return, panic, block or run forever, changing the store as it goes.
  \<open>newDefaultPairRedistributor\<close> stands for the call with the load-factor constant
  \<open>DEFAULT_BUCKET_LOAD_FACTOR\<close> already applied. The specification describes a
  redistributor that allocates a fresh bucket array and rehashes into it; accordingly
  \<open>Redistribe\<close> receives the bucket array as a value and returns the new array with
  the flag \<open>changed\<close>, and it reaches the pairs through the store.
\<close>

record ('v, 'r, 'st) externals =
  hash :: "string \<Rightarrow> 64 word"
  MAX_CONCURRENCY :: int
  DEFAULT_BUCKET_NUMBER :: int
  newDefaultPairRedistributor :: "int \<Rightarrow> ('v, 'r) world \<Rightarrow> ('v, 'r) world \<times> nat"
  UpdateThreshold ::
    "nat \<Rightarrow> 64 word \<Rightarrow> int \<Rightarrow> ('v, 'r) world \<Rightarrow> (('v, 'r) world, unit) outcome"
  CheckBucketStatus ::
    "nat \<Rightarrow> 64 word \<Rightarrow> 64 word \<Rightarrow> ('v, 'r) world \<Rightarrow> (('v, 'r) world, 'st) outcome"
  Redistribe ::
    "nat \<Rightarrow> 'st \<Rightarrow> bucket list \<Rightarrow> ('v, 'r) world
       \<Rightarrow> (('v, 'r) world, bucket list \<times> bool) outcome"

subsection \<open>Segments (segment.go)\<close>

record segment =
  segment_buckets :: "bucket list"
  segment_bucketsLen :: int
  segment_pairTotal :: "64 word"
  segment_pairRedistributor :: nat
  segment_lock :: bool

text \<open>The deferred function of \<open>redistribute\<close>: both branches build the same error type.\<close>

fun recovered :: "panic_value \<Rightarrow> error" where
  "recovered (ErrorValue msg) = newPairRedistributorError msg"
| "recovered (OtherValue msg) = newPairRedistributorError msg"

definition segment_redistribute ::
  "('v, 'r, 'st) externals \<Rightarrow> ('v, 'r) world \<Rightarrow> segment \<Rightarrow> 64 word \<Rightarrow> 64 word
     \<Rightarrow> (('v, 'r) world \<times> segment, error option) outcome" where
  "segment_redistribute X w s pairTotal bucketSize =
     (case UpdateThreshold X (segment_pairRedistributor s) pairTotal (segment_bucketsLen s) w of
        Panicked w1 v \<Rightarrow> Returned (w1, s) (Some (recovered v))
      | Blocked w1 \<Rightarrow> Blocked (w1, s)
      | Diverged w1 \<Rightarrow> Diverged (w1, s)
      | Returned w1 _ \<Rightarrow>
          (case CheckBucketStatus X (segment_pairRedistributor s) pairTotal bucketSize w1 of
             Panicked w2 v \<Rightarrow> Returned (w2, s) (Some (recovered v))
           | Blocked w2 \<Rightarrow> Blocked (w2, s)
           | Diverged w2 \<Rightarrow> Diverged (w2, s)
           | Returned w2 bucketStatus \<Rightarrow>
               (case Redistribe X (segment_pairRedistributor s) bucketStatus (segment_buckets s) w2 of
                  Panicked w3 v \<Rightarrow> Returned (w3, s) (Some (recovered v))
                | Blocked w3 \<Rightarrow> Blocked (w3, s)
                | Diverged w3 \<Rightarrow> Diverged (w3, s)
                | Returned w3 (newBuckets, changed) \<Rightarrow>
                    Returned
                      (w3,
                       if changed
                       then s\<lparr>segment_buckets := newBuckets,
                              segment_bucketsLen := int (length newBuckets)\<rparr>
                       else s)
                      None)))"

text \<open>
  \<open>s.buckets[int(h % uint64(s.bucketsLen))]\<close>: the remainder panics on a zero divisor,
  the conversion to \<open>int\<close> reads the 64 bits as signed, and the index is checked.
\<close>

definition bucket_index :: "segment \<Rightarrow> 64 word \<Rightarrow> panic_value + nat" where
  "bucket_index s h =
     (let n = (word_of_int (segment_bucketsLen s) :: 64 word) in
      if n = 0 then Inl divide_by_zero
      else
        (let i = sint (h mod n) in
         if 0 \<le> i \<and> i < int (length (segment_buckets s)) then Inr (nat i)
         else Inl index_out_of_range))"

definition put_bucket :: "nat \<Rightarrow> segment \<Rightarrow> bucket \<Rightarrow> segment" where
  "put_bucket i s b = s\<lparr>segment_buckets := (segment_buckets s)[i := b]\<rparr>"

text \<open>
  \<open>Put\<close> as it is written: \<open>s.lock.Lock()\<close> at the start and \<open>s.lock.Lock()\<close> again
  before \<open>return\<close>. The bucket is an object shared with the array, so the bucket that
  \<open>b.Put\<close> leaves is the one in the array afterwards (\<open>put_bucket\<close>).
\<close>

definition segment_Put ::
  "('v, 'r, 'st) externals \<Rightarrow> ('v, 'r) world \<Rightarrow> segment \<Rightarrow> addr option
     \<Rightarrow> (('v, 'r) world \<times> segment, bool \<times> error option) outcome" where
  "segment_Put X w s p =
     (case mutex_Lock (segment_lock s) of
        None \<Rightarrow> Blocked (w, s)
      | Some l \<Rightarrow>
          (let s1 = s\<lparr>segment_lock := l\<rparr> in
           case p of
             None \<Rightarrow> Panicked (w, s1) nil_dereference
           | Some pa \<Rightarrow>
               (case bucket_index s1 (pair_Hash w pa) of
                  Inl v \<Rightarrow> Panicked (w, s1) v
                | Inr i \<Rightarrow>
                    (case bucket_Put w (segment_buckets s1 ! i) (Some pa) None of
                       Blocked (w1, b1) \<Rightarrow> Blocked (w1, put_bucket i s1 b1)
                     | Panicked (w1, b1) v \<Rightarrow> Panicked (w1, put_bucket i s1 b1) v
                     | Diverged (w1, b1) \<Rightarrow> Diverged (w1, put_bucket i s1 b1)
                     | Returned (w1, b1) (ok, err) \<Rightarrow>
                         (let s2 = put_bucket i s1 b1;
                              after =
                                (if ok
                                 then
                                   (let newTotal = segment_pairTotal s2 + 1 in
                                    segment_redistribute X w1
                                      (s2\<lparr>segment_pairTotal := newTotal\<rparr>)
                                      newTotal (bucket_Size b1))
                                 else Returned (w1, s2) None)
                          in
                          case after of
                            Blocked t \<Rightarrow> Blocked t
                          | Panicked t v \<Rightarrow> Panicked t v
                          | Diverged t \<Rightarrow> Diverged t
                          | Returned (w2, s3) _ \<Rightarrow>
                              (case mutex_Lock (segment_lock s3) of
                                 None \<Rightarrow> Blocked (w2, s3)
                               | Some l' \<Rightarrow>
                                   Returned (w2, s3\<lparr>segment_lock := l'\<rparr>) (ok, err)))))))"

definition segment_GetWithHash ::
  "('v, 'r) world \<Rightarrow> segment \<Rightarrow> string \<Rightarrow> 64 word
     \<Rightarrow> (('v, 'r) world \<times> segment, addr option) outcome" where
  "segment_GetWithHash w s k keyHash =
     (case mutex_Lock (segment_lock s) of
        None \<Rightarrow> Blocked (w, s)
      | Some l \<Rightarrow>
          (let s1 = s\<lparr>segment_lock := l\<rparr> in
           case bucket_index s1 keyHash of
             Inl v \<Rightarrow> Panicked (w, s1) v
           | Inr i \<Rightarrow>
               (case mutex_Unlock (segment_lock s1) of
                  None \<Rightarrow> Panicked (w, s1) unlock_of_unlocked
                | Some l' \<Rightarrow>
                    (let s2 = s1\<lparr>segment_lock := l'\<rparr> in
                     map_state (\<lambda>(w', b'). (w', put_bucket i s2 b'))
                       (bucket_Get w (segment_buckets s2 ! i) k)))))"

definition segment_Get ::
  "('v, 'r, 'st) externals \<Rightarrow> ('v, 'r) world \<Rightarrow> segment \<Rightarrow> string
     \<Rightarrow> (('v, 'r) world \<times> segment, addr option) outcome" where
  "segment_Get X w s k = segment_GetWithHash w s k (hash X k)"

definition segment_Delete ::
  "('v, 'r, 'st) externals \<Rightarrow> ('v, 'r) world \<Rightarrow> segment \<Rightarrow> string
     \<Rightarrow> (('v, 'r) world \<times> segment, bool) outcome" where
  "segment_Delete X w s k =
     (case mutex_Lock (segment_lock s) of
        None \<Rightarrow> Blocked (w, s)
      | Some l \<Rightarrow>
          (let s1 = s\<lparr>segment_lock := l\<rparr> in
           case bucket_index s1 (hash X k) of
             Inl v \<Rightarrow> Panicked (w, s1) v
           | Inr i \<Rightarrow>
               (case bucket_Delete (hash X) w (segment_buckets s1 ! i) k None of
                  Blocked (w1, b1) \<Rightarrow> Blocked (w1, put_bucket i s1 b1)
                | Panicked (w1, b1) v \<Rightarrow> Panicked (w1, put_bucket i s1 b1) v
                | Diverged (w1, b1) \<Rightarrow> Diverged (w1, put_bucket i s1 b1)
                | Returned (w1, b1) ok \<Rightarrow>
                    (let s2 = put_bucket i s1 b1;
                         after =
                           (if ok
                            then
                              (let newTotal = segment_pairTotal s2 + (- 1) in
                               segment_redistribute X w1
                                 (s2\<lparr>segment_pairTotal := newTotal\<rparr>)
                                 newTotal (bucket_Size b1))
                            else Returned (w1, s2) None)
                     in
                     case after of
                       Blocked t \<Rightarrow> Blocked t
                     | Panicked t v \<Rightarrow> Panicked t v
                     | Diverged t \<Rightarrow> Diverged t
                     | Returned (w2, s3) _ \<Rightarrow>
                         (case mutex_Unlock (segment_lock s3) of
                            None \<Rightarrow> Panicked (w2, s3) unlock_of_unlocked
                          | Some l' \<Rightarrow> Returned (w2, s3\<lparr>segment_lock := l'\<rparr>) ok)))))"

definition segment_Size :: "segment \<Rightarrow> 64 word" where
  "segment_Size s = segment_pairTotal s"

text \<open>\<open>make([]Bucket, bucketNumber)\<close> panics on a negative length.\<close>

definition newSegment ::
  "('v, 'r, 'st) externals \<Rightarrow> ('v, 'r) world \<Rightarrow> int \<Rightarrow> nat option
     \<Rightarrow> (('v, 'r) world, segment) outcome" where
  "newSegment X w bucketNumber pairRedistributor =
     (let bucketNumber' = (if bucketNumber < 0 then DEFAULT_BUCKET_NUMBER X else bucketNumber);
          (w', pr) =
            (case pairRedistributor of
               None \<Rightarrow> newDefaultPairRedistributor X bucketNumber' w
             | Some r \<Rightarrow> (w, r))
      in
      if bucketNumber' < 0 then Panicked w' negative_len
      else
        Returned w'
          \<lparr>segment_buckets = replicate (nat bucketNumber') newBucket,
           segment_bucketsLen = bucketNumber',
           segment_pairTotal = 0,
           segment_pairRedistributor = pr,
           segment_lock = False\<rparr>)"

subsection \<open>The map (cmap.go)\<close>

record myConcurrentMap =
  cmap_concurrency :: int
  cmap_segments :: "segment list"
  cmap_total :: "64 word"

definition myConcurrentMap_Concurrency :: "myConcurrentMap \<Rightarrow> int" where
  "myConcurrentMap_Concurrency c = cmap_concurrency c"

text \<open>Go's \<open>%\<close> on \<open>int\<close> truncates towards zero: the sign is the dividend's.\<close>

definition go_rem :: "int \<Rightarrow> int \<Rightarrow> int" where
  "go_rem a b = sgn a * (\<bar>a\<bar> mod \<bar>b\<bar>)"

text \<open>The index that \<open>findSegment\<close> computes, \<open>math.MaxUint32\<close> being \<open>0xFFFFFFFF\<close>.\<close>

definition findSegment_index :: "int \<Rightarrow> 64 word \<Rightarrow> int" where
  "findSegment_index concurrency keyHash =
     (if concurrency = 1 then 0
      else
        (let keyHash32 =
               (if keyHash > 0xFFFFFFFF then (ucast (drop_bit 32 keyHash) :: 32 word)
                else (ucast keyHash :: 32 word))
         in go_rem (uint (drop_bit 16 keyHash32)) (concurrency - 1)))"

text \<open>\<open>findSegment\<close> returns the segment at that index; the slice access is checked.\<close>

definition myConcurrentMap_findSegment :: "myConcurrentMap \<Rightarrow> 64 word \<Rightarrow> panic_value + nat" where
  "myConcurrentMap_findSegment c keyHash =
     (let i = findSegment_index (cmap_concurrency c) keyHash in
      if 0 \<le> i \<and> i < int (length (cmap_segments c)) then Inr (nat i)
      else Inl index_out_of_range)"

definition put_segment :: "nat \<Rightarrow> myConcurrentMap \<Rightarrow> segment \<Rightarrow> myConcurrentMap" where
  "put_segment i c s = c\<lparr>cmap_segments := (cmap_segments c)[i := s]\<rparr>"

definition myConcurrentMap_Put ::
  "('v, 'r, 'st) externals \<Rightarrow> ('v, 'r) world \<Rightarrow> myConcurrentMap \<Rightarrow> string \<Rightarrow> 'v option
     \<Rightarrow> (('v, 'r) world \<times> myConcurrentMap, bool \<times> error option) outcome" where
  "myConcurrentMap_Put X w c k element =
     (case newPair (hash X) w k element of
        (w1, p, Some err) \<Rightarrow> Returned (w1, c) (False, Some err)
      | (w1, None, None) \<Rightarrow> Panicked (w1, c) nil_dereference
      | (w1, Some p, None) \<Rightarrow>
          (case myConcurrentMap_findSegment c (pair_Hash w1 p) of
             Inl v \<Rightarrow> Panicked (w1, c) v
           | Inr i \<Rightarrow>
               (case segment_Put X w1 (cmap_segments c ! i) (Some p) of
                  Blocked (w2, s) \<Rightarrow> Blocked (w2, put_segment i c s)
                | Panicked (w2, s) v \<Rightarrow> Panicked (w2, put_segment i c s) v
                | Diverged (w2, s) \<Rightarrow> Diverged (w2, put_segment i c s)
                | Returned (w2, s) (ok, err) \<Rightarrow>
                    Returned
                      (w2,
                       (let c' = put_segment i c s in
                        if ok then c'\<lparr>cmap_total := cmap_total c' + 1\<rparr> else c'))
                      (ok, err))))"

definition myConcurrentMap_Get ::
  "('v, 'r, 'st) externals \<Rightarrow> ('v, 'r) world \<Rightarrow> myConcurrentMap \<Rightarrow> string
     \<Rightarrow> (('v, 'r) world \<times> myConcurrentMap, 'v option) outcome" where
  "myConcurrentMap_Get X w c k =
     (let keyHash = hash X k in
      case myConcurrentMap_findSegment c keyHash of
        Inl v \<Rightarrow> Panicked (w, c) v
      | Inr i \<Rightarrow>
          (case segment_GetWithHash w (cmap_segments c ! i) k keyHash of
             Blocked (w1, s) \<Rightarrow> Blocked (w1, put_segment i c s)
           | Panicked (w1, s) v \<Rightarrow> Panicked (w1, put_segment i c s) v
           | Diverged (w1, s) \<Rightarrow> Diverged (w1, put_segment i c s)
           | Returned (w1, s) pair \<Rightarrow>
               Returned (w1, put_segment i c s)
                 (case pair of None \<Rightarrow> None | Some p \<Rightarrow> pair_Element w1 p)))"

definition myConcurrentMap_Delete ::
  "('v, 'r, 'st) externals \<Rightarrow> ('v, 'r) world \<Rightarrow> myConcurrentMap \<Rightarrow> string
     \<Rightarrow> (('v, 'r) world \<times> myConcurrentMap, bool) outcome" where
  "myConcurrentMap_Delete X w c k =
     (case myConcurrentMap_findSegment c (hash X k) of
        Inl v \<Rightarrow> Panicked (w, c) v
      | Inr i \<Rightarrow>
          (case segment_Delete X w (cmap_segments c ! i) k of
             Blocked (w1, s) \<Rightarrow> Blocked (w1, put_segment i c s)
           | Panicked (w1, s) v \<Rightarrow> Panicked (w1, put_segment i c s) v
           | Diverged (w1, s) \<Rightarrow> Diverged (w1, put_segment i c s)
           | Returned (w1, s) ok \<Rightarrow>
               (let c' = put_segment i c s in
                if ok then Returned (w1, c'\<lparr>cmap_total := cmap_total c' + (- 1)\<rparr>) True
                else Returned (w1, c') False)))"

definition myConcurrentMap_Len :: "myConcurrentMap \<Rightarrow> 64 word" where
  "myConcurrentMap_Len c = cmap_total c"

text \<open>The loop of the constructor: \<open>n\<close> calls of \<open>newSegment\<close>, in index order.\<close>

fun new_segments ::
  "('v, 'r, 'st) externals \<Rightarrow> ('v, 'r) world \<Rightarrow> nat \<Rightarrow> nat option
     \<Rightarrow> (('v, 'r) world, segment list) outcome" where
  "new_segments X w 0 pairRedistributor = Returned w []"
| "new_segments X w (Suc n) pairRedistributor =
     (case newSegment X w (DEFAULT_BUCKET_NUMBER X) pairRedistributor of
        Blocked w1 \<Rightarrow> Blocked w1
      | Panicked w1 v \<Rightarrow> Panicked w1 v
      | Diverged w1 \<Rightarrow> Diverged w1
      | Returned w1 s \<Rightarrow>
          (case new_segments X w1 n pairRedistributor of
             Returned w2 ss \<Rightarrow> Returned w2 (s # ss)
           | other \<Rightarrow> other))"

definition NewConcurrentMap ::
  "('v, 'r, 'st) externals \<Rightarrow> ('v, 'r) world \<Rightarrow> int \<Rightarrow> nat option
     \<Rightarrow> (('v, 'r) world, myConcurrentMap option \<times> error option) outcome" where
  "NewConcurrentMap X w concurrency pairRedistributor =
     (if concurrency \<le> 0
      then Returned w (None, Some (newIllegalParameterError ''concurrency is too small''))
      else if concurrency > MAX_CONCURRENCY X
      then Returned w (None, Some (newIllegalParameterError ''concurrency is too large''))
      else
        (case new_segments X w (nat concurrency) pairRedistributor of
           Blocked w1 \<Rightarrow> Blocked w1
         | Panicked w1 v \<Rightarrow> Panicked w1 v
         | Diverged w1 \<Rightarrow> Diverged w1
         | Returned w1 ss \<Rightarrow>
             Returned w1
               (Some \<lparr>cmap_concurrency = concurrency, cmap_segments = ss, cmap_total = 0\<rparr>,
                None)))"

subsection \<open>Running a sequence of operations\<close>

text \<open>
  One client after the other calls an operation of the map. A call that blocks or panics
  has still made its writes, so the next call starts from the state it left.
\<close>

datatype 'v operation = OpPut string "'v option" | OpGet string | OpDelete string

fun exec_op ::
  "('v, 'r, 'st) externals \<Rightarrow> ('v, 'r) world \<times> myConcurrentMap \<Rightarrow> 'v operation
     \<Rightarrow> ('v, 'r) world \<times> myConcurrentMap" where
  "exec_op X (w, c) (OpPut k element) = outcome_state (myConcurrentMap_Put X w c k element)"
| "exec_op X (w, c) (OpGet k) = outcome_state (myConcurrentMap_Get X w c k)"
| "exec_op X (w, c) (OpDelete k) = outcome_state (myConcurrentMap_Delete X w c k)"

fun run_ops ::
  "('v, 'r, 'st) externals \<Rightarrow> ('v, 'r) world \<times> myConcurrentMap \<Rightarrow> 'v operation list
     \<Rightarrow> ('v, 'r) world \<times> myConcurrentMap" where
  "run_ops X st [] = st"
| "run_ops X st (op # ops) = run_ops X (exec_op X st op) ops"

subsection \<open>Chains in the store\<close>

text \<open>
  \<open>chain h p as\<close>: following \<open>next\<close> from \<open>p\<close> visits exactly the addresses \<open>as\<close> and
  then reaches nil. Such a chain is finite and acyclic.
\<close>

fun chain :: "(addr \<Rightarrow> 'v pair) \<Rightarrow> addr option \<Rightarrow> addr list \<Rightarrow> bool" where
  "chain h p [] = (p = None)"
| "chain h p (a # as) = (p = Some a \<and> chain h (pair_next (h a)) as)"

definition keys_of :: "(addr \<Rightarrow> 'v pair) \<Rightarrow> addr list \<Rightarrow> string list" where
  "keys_of h as = map (\<lambda>a. pair_key (h a)) as"

definition entries_of :: "(addr \<Rightarrow> 'v pair) \<Rightarrow> addr list \<Rightarrow> (string \<times> 'v option) list" where
  "entries_of h as = map (\<lambda>a. (pair_key (h a), pair_element (h a))) as"

text \<open>
  The pairs of a chain as the package builds them: allocated, not the placeholder, with
  an element, and no key twice.
\<close>

definition chain_ok :: "('v, 'r) world \<Rightarrow> addr list \<Rightarrow> bool" where
  "chain_ok w as =
     (list_all (\<lambda>a. a \<noteq> placeholder \<and> a < free w \<and> pair_element (pairs w a) \<noteq> None) as
      \<and> distinct (keys_of (pairs w) as))"

subsection \<open>The routing rule in the words of the specification\<close>

text \<open>
  On the hash as a number: above the largest 32-bit value take the upper 32 bits, else
  the low 32 bits; shift right by 16; take the remainder by \<open>concurrency - 1\<close>.
\<close>

definition spec_fold32 :: "nat \<Rightarrow> nat" where
  "spec_fold32 h = (if h > 2 ^ 32 - 1 then h div 2 ^ 32 else h mod 2 ^ 32)"

definition spec_route :: "nat \<Rightarrow> nat \<Rightarrow> nat" where
  "spec_route concurrency h =
     (if concurrency = 1 then 0 else (spec_fold32 h div 2 ^ 16) mod (concurrency - 1))"

subsection \<open>Concrete states for the examples\<close>

definition zero_pair :: "nat pair" where
  "zero_pair = \<lparr>pair_key = [], pair_hash = 0, pair_element = None, pair_next = None\<rparr>"

definition example_hash :: "string \<Rightarrow> 64 word" where
  "example_hash k = of_nat (length k)"

text \<open>
  A redistributor that never resizes, and one whose \<open>UpdateThreshold\<close> panics.
\<close>

definition example_externals :: "(nat, unit, unit) externals" where
  "example_externals =
     \<lparr>hash = example_hash,
      MAX_CONCURRENCY = 65536,
      DEFAULT_BUCKET_NUMBER = 4,
      newDefaultPairRedistributor = (\<lambda>n w. (w, 0)),
      UpdateThreshold = (\<lambda>r t n w. Returned w ()),
      CheckBucketStatus = (\<lambda>r t n w. Returned w ()),
      Redistribe = (\<lambda>r st bs w. Returned w (bs, False))\<rparr>"


text \<open>
  A store with the chain 3, 2, 1 (keys \<open>ccc\<close>, \<open>bb\<close>, \<open>a\<close>) and two detached pairs: 4 with
  the new key \<open>dddd\<close>, 5 with the key \<open>bb\<close> again.
\<close>

definition example_world :: "(nat, unit) world" where
  "example_world =
     \<lparr>pairs = (\<lambda>a. zero_pair)
        (1 := \<lparr>pair_key = ''a'', pair_hash = 1, pair_element = Some 10, pair_next = None\<rparr>,
         2 := \<lparr>pair_key = ''bb'', pair_hash = 2, pair_element = Some 20, pair_next = Some 1\<rparr>,
         3 := \<lparr>pair_key = ''ccc'', pair_hash = 3, pair_element = Some 30, pair_next = Some 2\<rparr>,
         4 := \<lparr>pair_key = ''dddd'', pair_hash = 4, pair_element = Some 40, pair_next = None\<rparr>,
         5 := \<lparr>pair_key = ''bb'', pair_hash = 2, pair_element = Some 50, pair_next = None\<rparr>),
      free = 6,
      renv = ()\<rparr>"

definition example_bucket :: bucket where
  "example_bucket = \<lparr>bucket_firstValue = Some 3, bucket_size = 3\<rparr>"

text \<open>The store before anything is allocated: only the placeholder, at address 0.\<close>

definition initial_world :: "(nat, unit) world" where
  "initial_world = \<lparr>pairs = (\<lambda>a. zero_pair), free = 1, renv = ()\<rparr>"

text \<open>
  A segment of four buckets that holds the pair 1 (key \<open>a\<close>, hash 1) in bucket 1, and a
  map of one such segment.
\<close>

definition example_segment :: segment where
  "example_segment =
     \<lparr>segment_buckets =
        [newBucket, \<lparr>bucket_firstValue = Some 1, bucket_size = 1\<rparr>, newBucket, newBucket],
      segment_bucketsLen = 4,
      segment_pairTotal = 1,
      segment_pairRedistributor = 0,
      segment_lock = False\<rparr>"


subsection \<open>What the constructor builds\<close>

text \<open>
  A segment as \<open>newSegment\<close> leaves it for the default bucket number: that many empty
  buckets, no pairs, the lock free, and the redistributor \<open>r\<close>. With a redistributor
  given, every segment holds that one; with nil, each holds one that
  \<open>newDefaultPairRedistributor\<close> returned for the default bucket number.
\<close>

definition fresh_segment :: "('v, 'r, 'st) externals \<Rightarrow> nat \<Rightarrow> segment" where
  "fresh_segment X r =
     \<lparr>segment_buckets = replicate (nat (DEFAULT_BUCKET_NUMBER X)) newBucket,
      segment_bucketsLen = DEFAULT_BUCKET_NUMBER X,
      segment_pairTotal = 0,
      segment_pairRedistributor = r,
      segment_lock = False\<rparr>"

definition built_segment :: "('v, 'r, 'st) externals \<Rightarrow> nat option \<Rightarrow> segment \<Rightarrow> bool" where
  "built_segment X pairRedistributor s =
     (case pairRedistributor of
        Some r \<Rightarrow> s = fresh_segment X r
      | None \<Rightarrow>
          (\<exists>w0. s = fresh_segment X
                      (snd (newDefaultPairRedistributor X (DEFAULT_BUCKET_NUMBER X) w0))))"

subsection \<open>Well-formed maps\<close>





text \<open>A segment without pairs; and a map that differs from another only before its last segment.\<close>

definition segment_empty :: "segment \<Rightarrow> bool" where
  "segment_empty s =
     (segment_pairTotal s = 0
      \<and> list_all (\<lambda>b. bucket_GetFirstPair b = None \<and> bucket_Size b = 0) (segment_buckets s))"

definition last_kept :: "myConcurrentMap \<Rightarrow> myConcurrentMap \<Rightarrow> bool" where
  "last_kept c c' =
     (cmap_concurrency c' = cmap_concurrency c
      \<and> length (cmap_segments c') = length (cmap_segments c)
      \<and> last (cmap_segments c') = last (cmap_segments c))"

subsection \<open>A panic inside the redistributor\<close>




section \<open>The segment lock\<close>

lemma segment_redistribute_lock:
  "segment_redistribute X w s pt bs = Returned (w', s') e \<Longrightarrow> segment_lock s' = segment_lock s"
  by (auto simp: segment_redistribute_def split: outcome.splits prod.splits if_splits)

lemma segment_redistribute_lock_state:
  "segment_lock (snd (outcome_state (segment_redistribute X w s pt bs))) = segment_lock s"
  by (auto simp: segment_redistribute_def split: outcome.splits prod.splits if_splits)

lemma segment_redistribute_lock_cases:
  "segment_redistribute X w s pt bs = Blocked (w', s') \<Longrightarrow> segment_lock s' = segment_lock s"
  "segment_redistribute X w s pt bs = Panicked (w', s') v \<Longrightarrow> segment_lock s' = segment_lock s"
  "segment_redistribute X w s pt bs = Diverged (w', s') \<Longrightarrow> segment_lock s' = segment_lock s"
  using segment_redistribute_lock_state [of X w s pt bs] by simp_all

lemma segment_Put_not_Returned: "segment_Put X w s p \<noteq> Returned t r"
  by (auto simp: segment_Put_def mutex_Lock_def put_bucket_def Let_def
      split: option.splits sum.splits outcome.splits prod.splits if_splits
      dest!: segment_redistribute_lock)

lemma segment_Put_lock_held: "segment_lock (snd (outcome_state (segment_Put X w s p)))"
  by (auto simp: segment_Put_def mutex_Lock_def put_bucket_def Let_def
      split: option.splits sum.splits outcome.splits prod.splits if_splits
      dest!: segment_redistribute_lock segment_redistribute_lock_cases)

text \<open>The sibling path: \<open>Delete\<close> ends with \<open>Unlock\<close>, and the lock is free when it returns.\<close>

lemma segment_Delete_releases_lock:
  "segment_Delete X w s k = Returned (w', s') ok \<Longrightarrow> \<not> segment_lock s'"
  by (auto simp: segment_Delete_def mutex_Lock_def mutex_Unlock_def put_bucket_def Let_def
      split: option.splits sum.splits outcome.splits prod.splits if_splits)

text \<open>
  Claim C1 (the segment's Put releases the lock before it returns, so the lock is free
  after every completed put). The code does otherwise: the statement before \<open>return\<close>
  is a second \<open>Lock\<close>, on the mutex the call itself holds. For every store, every
  segment and every pair, Put does not return, and in the state it leaves (blocked,
  panicked or caught in a loop) the segment lock is held.
\<close>

theorem segment_Put_never_returns_lock_held:
  "(\<forall>t r. segment_Put X w s p \<noteq> Returned t r)
   \<and> segment_lock (snd (outcome_state (segment_Put X w s p)))"
  by (simp add: segment_Put_not_Returned segment_Put_lock_held)

lemma segment_GetWithHash_blocks:
  "segment_lock s \<Longrightarrow> segment_GetWithHash w s k h = Blocked (w, s)"
  by (simp add: segment_GetWithHash_def mutex_Lock_def)

lemma findSegment_put_segment [simp]:
  "i < length (cmap_segments c) \<Longrightarrow>
   myConcurrentMap_findSegment (put_segment i c s) h = myConcurrentMap_findSegment c h"
  by (simp add: myConcurrentMap_findSegment_def put_segment_def)

text \<open>
  In the state a put leaves, stuck on the lock, a get of the same key is routed to the
  same segment and blocks on that lock (or meets the same index panic as the put did).
\<close>

lemma Get_after_Put_blocks:
  assumes "myConcurrentMap_Put X w c k (Some v) = r"
  shows "\<exists>st. myConcurrentMap_Get X (fst (outcome_state r)) (snd (outcome_state r)) k
               = (case myConcurrentMap_findSegment c (hash X k) of
                    Inl e \<Rightarrow> Panicked st e
                  | Inr i \<Rightarrow> Blocked st)"
proof (cases "myConcurrentMap_findSegment c (hash X k)")
  case (Inl e)
  with assms show ?thesis
    by (auto simp: myConcurrentMap_Put_def myConcurrentMap_Get_def newPair_def pair_Hash_def)
next
  case (Inr i)
  then have i: "i < length (cmap_segments c)"
    by (auto simp: myConcurrentMap_findSegment_def Let_def split: if_splits)
  let ?w1 = "w\<lparr>pairs := (pairs w)(free w :=
                \<lparr>pair_key = k, pair_hash = hash X k, pair_element = Some v, pair_next = None\<rparr>),
              free := Suc (free w)\<rparr>"
  let ?put = "segment_Put X ?w1 (cmap_segments c ! i) (Some (free w))"
  obtain w2 s2 where st: "outcome_state ?put = (w2, s2)" by (cases "outcome_state ?put")
  with segment_Put_lock_held [of X ?w1 "cmap_segments c ! i" "Some (free w)"]
  have l: "segment_lock s2" by simp
  have "outcome_state r = (w2, put_segment i c s2)"
    using assms Inr st segment_Put_not_Returned [of X ?w1 "cmap_segments c ! i" "Some (free w)"]
    by (cases ?put)
      (auto simp: myConcurrentMap_Put_def newPair_def pair_Hash_def split: prod.splits)
  moreover have "myConcurrentMap_Get X w2 (put_segment i c s2) k
                   = Blocked (w2, put_segment i (put_segment i c s2) s2)"
  proof -
    have f: "myConcurrentMap_findSegment (put_segment i c s2) (hash X k) = Inr i"
      using Inr i by simp
    have g: "cmap_segments (put_segment i c s2) ! i = s2"
      using i by (simp add: put_segment_def)
    show ?thesis
      by (simp add: myConcurrentMap_Get_def Let_def f g segment_GetWithHash_blocks [OF l])
  qed
  ultimately show ?thesis using Inr by auto
qed


section \<open>A nil element\<close>

text \<open>
  Claim C6: for every store, map and key, put with a nil element returns the
  illegal-parameter error and leaves the store and the map, hence also the length that
  \<open>Len\<close> reports, as they were.
\<close>

theorem myConcurrentMap_Put_nil_element:
  "myConcurrentMap_Put X w c k None =
     Returned (w, c) (False, Some (newIllegalParameterError ''element is nil''))
   \<and> myConcurrentMap_Len (snd (outcome_state (myConcurrentMap_Put X w c k None)))
       = myConcurrentMap_Len c"
  by (simp add: myConcurrentMap_Put_def newPair_def)

section \<open>The constructor\<close>

lemma newSegment_default:
  assumes "0 \<le> DEFAULT_BUCKET_NUMBER X"
  shows "\<exists>w' s. newSegment X w (DEFAULT_BUCKET_NUMBER X) pr = Returned w' s \<and> built_segment X pr s"
proof (cases pr)
  case None
  obtain w1 r where r: "newDefaultPairRedistributor X (DEFAULT_BUCKET_NUMBER X) w = (w1, r)"
    by (cases "newDefaultPairRedistributor X (DEFAULT_BUCKET_NUMBER X) w")
  then have "snd (newDefaultPairRedistributor X (DEFAULT_BUCKET_NUMBER X) w) = r" by simp
  then have "built_segment X pr (fresh_segment X r)"
    using None by (auto simp: built_segment_def)
  moreover have "newSegment X w (DEFAULT_BUCKET_NUMBER X) pr = Returned w1 (fresh_segment X r)"
    using assms None r by (simp add: newSegment_def fresh_segment_def Let_def)
  ultimately show ?thesis by blast
next
  case (Some r)
  then show ?thesis using assms
    by (simp add: newSegment_def built_segment_def fresh_segment_def Let_def)
qed

lemma new_segments_built:
  assumes "0 \<le> DEFAULT_BUCKET_NUMBER X"
  shows "\<exists>w' ss. new_segments X w n pr = Returned w' ss \<and> length ss = n
           \<and> list_all (built_segment X pr) ss"
proof (induction n arbitrary: w)
  case 0
  then show ?case by simp
next
  case (Suc n)
  from newSegment_default [OF assms, of w pr] obtain w1 s
    where s: "newSegment X w (DEFAULT_BUCKET_NUMBER X) pr = Returned w1 s" "built_segment X pr s"
    by blast
  from Suc.IH [of w1] obtain w2 ss
    where ss: "new_segments X w1 n pr = Returned w2 ss" "length ss = n"
      "list_all (built_segment X pr) ss"
    by blast
  from s ss show ?case by simp
qed

lemma NewConcurrentMap_fails_iff:
  "(\<exists>w' msg. NewConcurrentMap X w n pr = Returned w' (None, Some (IllegalParameterError msg)))
     = (n \<le> 0 \<or> MAX_CONCURRENCY X < n)"
  by (auto simp: NewConcurrentMap_def newIllegalParameterError_def split: outcome.splits)

text \<open>
  Claim C8: the constructor returns an illegal-parameter error exactly when the
  concurrency is at most 0 or above \<open>MAX_CONCURRENCY\<close>; for a concurrency from 1 to
  \<open>MAX_CONCURRENCY\<close> it returns a map with that concurrency and exactly that many
  segments, each with the default number of empty buckets and the given redistributor
  (or, for nil, a default one). The default bucket number is a constant of the package
  declared outside these files; it is taken to be non-negative.
\<close>

theorem NewConcurrentMap_contract:
  assumes "0 \<le> DEFAULT_BUCKET_NUMBER X"
  shows "((\<exists>w' msg. NewConcurrentMap X w n pr
              = Returned w' (None, Some (IllegalParameterError msg)))
            = (n \<le> 0 \<or> MAX_CONCURRENCY X < n))
         \<and> (1 \<le> n \<and> n \<le> MAX_CONCURRENCY X \<longrightarrow>
              (\<exists>w' c. NewConcurrentMap X w n pr = Returned w' (Some c, None)
                 \<and> cmap_concurrency c = n
                 \<and> int (length (cmap_segments c)) = n
                 \<and> cmap_total c = 0
                 \<and> list_all (built_segment X pr) (cmap_segments c)))"
proof (intro conjI impI)
  show "(\<exists>w' msg. NewConcurrentMap X w n pr
              = Returned w' (None, Some (IllegalParameterError msg)))
            = (n \<le> 0 \<or> MAX_CONCURRENCY X < n)"
    by (rule NewConcurrentMap_fails_iff)
next
  assume n: "1 \<le> n \<and> n \<le> MAX_CONCURRENCY X"
  from new_segments_built [OF assms, of w "nat n" pr] obtain w' ss
    where ss: "new_segments X w (nat n) pr = Returned w' ss" "length ss = nat n"
      "list_all (built_segment X pr) ss"
    by blast
  with n show "\<exists>w' c. NewConcurrentMap X w n pr = Returned w' (Some c, None)
                 \<and> cmap_concurrency c = n
                 \<and> int (length (cmap_segments c)) = n
                 \<and> cmap_total c = 0
                 \<and> list_all (built_segment X pr) (cmap_segments c)"
    by (simp add: NewConcurrentMap_def)
qed

lemma example_NewConcurrentMap:
  "NewConcurrentMap example_externals initial_world 3 None =
     Returned initial_world
       (Some \<lparr>cmap_concurrency = 3,
              cmap_segments = replicate 3 (fresh_segment example_externals 0),
              cmap_total = 0\<rparr>, None)"
  by (simp add: NewConcurrentMap_def newSegment_def example_externals_def fresh_segment_def
      numeral_3_eq_3 Let_def)

theorem NewConcurrentMap_contract_witness:
  "0 \<le> DEFAULT_BUCKET_NUMBER example_externals
   \<and> (\<exists>w' c. NewConcurrentMap example_externals initial_world 3 None = Returned w' (Some c, None)
         \<and> cmap_concurrency c = 3 \<and> int (length (cmap_segments c)) = 3)
   \<and> (\<exists>w' msg. NewConcurrentMap example_externals initial_world 0 None
          = Returned w' (None, Some (IllegalParameterError msg)))"
proof -
  have d: "0 \<le> DEFAULT_BUCKET_NUMBER example_externals" by (simp add: example_externals_def)
  have m: "MAX_CONCURRENCY example_externals = 65536" by (simp add: example_externals_def)
  from NewConcurrentMap_contract [OF d, of initial_world 3 None] m
  have "\<exists>w' c. NewConcurrentMap example_externals initial_world 3 None = Returned w' (Some c, None)
         \<and> cmap_concurrency c = 3 \<and> int (length (cmap_segments c)) = 3"
    by auto
  moreover from NewConcurrentMap_contract [OF d, of initial_world 0 None]
  have "\<exists>w' msg. NewConcurrentMap example_externals initial_world 0 None
          = Returned w' (None, Some (IllegalParameterError msg))"
    by simp
  ultimately show ?thesis using d by blast
qed

section \<open>Routing a hash to a segment\<close>

lemma go_rem_nonneg: "0 \<le> a \<Longrightarrow> 0 < b \<Longrightarrow> go_rem a b = a mod b"
  by (cases "a = 0") (simp_all add: go_rem_def)

lemma unat_hi_small: "unat (h :: 64 word) div 2 ^ 32 < 2 ^ 32"
proof -
  have "unat h < 2 ^ 64" using unsigned_less [of h] by simp
  then show ?thesis by (simp add: less_mult_imp_div_less)
qed

lemma fold_lo: "unat (ucast (h :: 64 word) :: 32 word) = unat h mod 2 ^ 32"
  by (simp add: unsigned_ucast_eq take_bit_eq_mod)

lemma fold_hi: "unat (ucast (drop_bit 32 (h :: 64 word)) :: 32 word) = unat h div 2 ^ 32"
proof -
  have "unat (drop_bit 32 h) = unat h div 2 ^ 32"
    by (subst unat_drop_bit_eq) (rule drop_bit_eq_div)
  then have "unat (ucast (drop_bit 32 h) :: 32 word) = (unat h div 2 ^ 32) mod 2 ^ 32"
    by (simp only: fold_lo)
  then show ?thesis using unat_hi_small [of h] by (simp only: mod_less)
qed

lemma hash_gt: "((h :: 64 word) > 0xFFFFFFFF) = (unat h > 2 ^ 32 - 1)"
  by (simp add: word_less_nat_alt)

lemma shift16: "uint (drop_bit 16 (k :: 32 word)) = int (unat k div 2 ^ 16)"
proof -
  have "unat (drop_bit 16 k) = unat k div 2 ^ 16"
    by (subst unat_drop_bit_eq) (rule drop_bit_eq_div)
  then show ?thesis by (metis of_nat_unat)
qed

lemma findSegment_index_spec:
  assumes "1 \<le> c"
  shows "findSegment_index c h = int (spec_route (nat c) (unat h))"
proof (cases "c = 1")
  case True
  then show ?thesis by (simp add: findSegment_index_def spec_route_def)
next
  case False
  with assms have c: "0 < c - 1" by simp
  have n: "int (nat c - 1) = c - 1" using assms by simp
  have ne: "nat c \<noteq> 1" using False assms by simp
  let ?k = "(if h > 0xFFFFFFFF then (ucast (drop_bit 32 h) :: 32 word) else ucast h)"
  have k: "unat ?k = spec_fold32 (unat h)"
  proof (cases "h > 0xFFFFFFFF")
    case True
    then have "unat ?k = unat h div 2 ^ 32" by (simp only: if_True fold_hi)
    moreover from True have "spec_fold32 (unat h) = unat h div 2 ^ 32"
      by (simp only: spec_fold32_def hash_gt if_True)
    ultimately show ?thesis by simp
  next
    case False
    then have "unat ?k = unat h mod 2 ^ 32" by (simp only: if_False fold_lo)
    moreover from False have "spec_fold32 (unat h) = unat h mod 2 ^ 32"
      by (simp only: spec_fold32_def hash_gt if_False)
    ultimately show ?thesis by simp
  qed
  have "findSegment_index c h = go_rem (uint (drop_bit 16 ?k)) (c - 1)"
    using False by (simp add: findSegment_index_def Let_def)
  also have "\<dots> = int (unat ?k div 2 ^ 16) mod (c - 1)"
    using c by (simp only: shift16 go_rem_nonneg of_nat_0_le_iff)
  also have "\<dots> = int ((spec_fold32 (unat h) div 2 ^ 16) mod (nat c - 1))"
    by (simp only: k zmod_int n)
  finally show ?thesis using ne by (simp add: spec_route_def)
qed

lemma spec_route_less: "1 < c \<Longrightarrow> spec_route c h < c - 1"
  by (simp add: spec_route_def)

lemma new_segments_length:
  "new_segments X w n pr = Returned w' ss \<Longrightarrow> length ss = n"
  by (induction n arbitrary: w w' ss) (auto split: outcome.splits)

lemma NewConcurrentMap_Some:
  assumes "NewConcurrentMap X w n pr = Returned w' (Some c, e)"
  shows "cmap_concurrency c = n" "length (cmap_segments c) = nat n" "1 \<le> n" "n \<le> MAX_CONCURRENCY X"
    "cmap_total c = 0" "e = None"
  using assms
  by (auto simp: NewConcurrentMap_def split: if_splits outcome.splits dest: new_segments_length)

lemma findSegment_constructed:
  assumes "1 \<le> cmap_concurrency c" "length (cmap_segments c) = nat (cmap_concurrency c)"
  shows "myConcurrentMap_findSegment c h = Inr (spec_route (nat (cmap_concurrency c)) (unat h))"
proof -
  have "spec_route (nat (cmap_concurrency c)) (unat h) < nat (cmap_concurrency c)"
  proof (cases "cmap_concurrency c = 1")
    case True then show ?thesis by (simp add: spec_route_def)
  next
    case False
    with assms have "1 < nat (cmap_concurrency c)" by simp
    from spec_route_less [OF this, of "unat h"] show ?thesis by simp
  qed
  then show ?thesis using assms
    by (simp add: myConcurrentMap_findSegment_def findSegment_index_spec Let_def)
qed

text \<open>
  Claim C4: on every map the constructor returns, and for every 64-bit hash,
  \<open>findSegment\<close> selects the segment that the routing rule of the specification names:
  segment 0 when the concurrency is 1; otherwise the hash folded to 32 bits (its upper
  32 bits when it exceeds the largest 32-bit value, else its low 32 bits), shifted right
  by 16, modulo concurrency - 1.
\<close>

theorem findSegment_as_specified:
  assumes "NewConcurrentMap X w n pr = Returned w' (Some c, e)"
  shows "myConcurrentMap_findSegment c keyHash = Inr (spec_route (nat n) (unat keyHash))"
  using NewConcurrentMap_Some [OF assms] findSegment_constructed [of c keyHash] by simp

theorem findSegment_as_specified_witness:
  "\<exists>c. NewConcurrentMap example_externals initial_world 3 None
          = Returned initial_world (Some c, None)
      \<and> myConcurrentMap_findSegment c 0x30000 = Inr 1
      \<and> myConcurrentMap_findSegment c 0x3000000000000 = Inr 1"
proof -
  have s1: "spec_route (nat 3) (unat (0x30000 :: 64 word)) = 1"
    by (simp add: spec_route_def spec_fold32_def)
  have s2: "spec_route (nat 3) (unat (0x3000000000000 :: 64 word)) = 1"
    by (simp add: spec_route_def spec_fold32_def)
  from findSegment_as_specified [OF example_NewConcurrentMap] s1 s2 example_NewConcurrentMap
  show ?thesis by metis
qed

section \<open>The last segment\<close>

lemma findSegment_not_last:
  assumes "1 < cmap_concurrency c" "int (length (cmap_segments c)) = cmap_concurrency c"
    and "myConcurrentMap_findSegment c h = Inr i"
  shows "i < length (cmap_segments c) - 1"
proof -
  have "myConcurrentMap_findSegment c h = Inr (spec_route (nat (cmap_concurrency c)) (unat h))"
    using assms(1,2) by (intro findSegment_constructed) auto
  with assms(3) have "i = spec_route (nat (cmap_concurrency c)) (unat h)" by simp
  moreover have "spec_route (nat (cmap_concurrency c)) (unat h) < nat (cmap_concurrency c) - 1"
    using assms(1) by (intro spec_route_less) auto
  ultimately show ?thesis using assms(2) by auto
qed

lemma last_kept_refl: "last_kept c c"
  by (simp add: last_kept_def)

lemma last_kept_put_segment:
  assumes "i < length (cmap_segments c) - 1"
  shows "last_kept c (put_segment i c s)"
    and "last_kept c ((put_segment i c s)\<lparr>cmap_total := t\<rparr>)"
proof -
  from assms have "cmap_segments c \<noteq> []" by auto
  with assms have "last ((cmap_segments c)[i := s]) = last (cmap_segments c)"
    by (simp add: last_list_update)
  then show "last_kept c (put_segment i c s)"
    and "last_kept c ((put_segment i c s)\<lparr>cmap_total := t\<rparr>)"
    by (simp_all add: last_kept_def put_segment_def)
qed

lemma Put_last_kept:
  assumes "1 < cmap_concurrency c" "int (length (cmap_segments c)) = cmap_concurrency c"
  shows "last_kept c (snd (outcome_state (myConcurrentMap_Put X w c k e)))"
  using assms
  by (auto simp: myConcurrentMap_Put_def Let_def last_kept_refl
      split: prod.splits option.splits sum.splits outcome.splits
      intro!: last_kept_put_segment dest: findSegment_not_last)

lemma Get_last_kept:
  assumes "1 < cmap_concurrency c" "int (length (cmap_segments c)) = cmap_concurrency c"
  shows "last_kept c (snd (outcome_state (myConcurrentMap_Get X w c k)))"
  using assms
  by (auto simp: myConcurrentMap_Get_def Let_def last_kept_refl
      split: prod.splits option.splits sum.splits outcome.splits
      intro!: last_kept_put_segment dest: findSegment_not_last)

lemma Delete_last_kept:
  assumes "1 < cmap_concurrency c" "int (length (cmap_segments c)) = cmap_concurrency c"
  shows "last_kept c (snd (outcome_state (myConcurrentMap_Delete X w c k)))"
  using assms
  by (auto simp: myConcurrentMap_Delete_def Let_def last_kept_refl
      split: prod.splits option.splits sum.splits outcome.splits if_splits
      intro!: last_kept_put_segment dest: findSegment_not_last)

lemma exec_op_last_kept:
  assumes "1 < cmap_concurrency c" "int (length (cmap_segments c)) = cmap_concurrency c"
  shows "last_kept c (snd (exec_op X (w, c) op))"
  using assms by (cases op) (simp_all add: Put_last_kept Get_last_kept Delete_last_kept)

lemma run_ops_last_kept:
  assumes "1 < cmap_concurrency c" "int (length (cmap_segments c)) = cmap_concurrency c"
  shows "last_kept c (snd (run_ops X (w, c) ops))"
  using assms
proof (induction ops arbitrary: w c)
  case Nil
  then show ?case by (simp add: last_kept_refl)
next
  case (Cons op ops)
  obtain w1 c1 where e: "exec_op X (w, c) op = (w1, c1)" by (cases "exec_op X (w, c) op")
  with exec_op_last_kept [OF Cons.prems, of X w op] have k: "last_kept c c1" by simp
  then have "1 < cmap_concurrency c1" "int (length (cmap_segments c1)) = cmap_concurrency c1"
    using Cons.prems by (simp_all add: last_kept_def)
  from Cons.IH [OF this, of w1] have "last_kept c1 (snd (run_ops X (w1, c1) ops))" .
  with k e show ?case by (simp add: last_kept_def)
qed

lemma fresh_segment_empty: "segment_empty (fresh_segment X r)"
  by (simp add: segment_empty_def fresh_segment_def list_all_length newBucket_def
      bucket_GetFirstPair_def bucket_Size_def)

lemma built_segment_empty: "built_segment X pr s \<Longrightarrow> segment_empty s"
  by (auto simp: built_segment_def fresh_segment_empty split: option.splits)

lemma newSegment_built:
  "newSegment X w (DEFAULT_BUCKET_NUMBER X) pr = Returned w' s \<Longrightarrow> built_segment X pr s"
  by (cases pr)
    (auto simp: newSegment_def built_segment_def fresh_segment_def Let_def
      split: prod.splits if_splits intro: exI [of _ w])

lemma new_segments_all_built:
  "new_segments X w n pr = Returned w' ss \<Longrightarrow> list_all (built_segment X pr) ss"
  by (induction n arbitrary: w w' ss) (auto split: outcome.splits dest: newSegment_built)


text \<open>
  Claim C10: for a map built with a concurrency above 1, after every sequence of put,
  get and delete operations, \<open>findSegment\<close> sends every hash to an index below
  concurrency - 1; the last segment is still the one the constructor built, and it
  holds no pairs.
\<close>

theorem last_segment_never_used:
  assumes "NewConcurrentMap X w n pr = Returned w0 (Some c0, e)" and "1 < n"
  shows "(\<exists>i. myConcurrentMap_findSegment (snd (run_ops X (w0, c0) ops)) keyHash = Inr i
            \<and> int i < n - 1)
         \<and> int (length (cmap_segments (snd (run_ops X (w0, c0) ops)))) = n
         \<and> last (cmap_segments (snd (run_ops X (w0, c0) ops))) = last (cmap_segments c0)
         \<and> segment_empty (last (cmap_segments (snd (run_ops X (w0, c0) ops))))"
proof -
  let ?c = "snd (run_ops X (w0, c0) ops)"
  note c0 = NewConcurrentMap_Some [OF assms(1)]
  from c0 assms(2) have pre: "1 < cmap_concurrency c0"
    "int (length (cmap_segments c0)) = cmap_concurrency c0" by simp_all
  from run_ops_last_kept [OF pre, of X w0 ops] have k: "last_kept c0 ?c" .
  then have c: "cmap_concurrency ?c = n" "int (length (cmap_segments ?c)) = n"
    "last (cmap_segments ?c) = last (cmap_segments c0)"
    using c0 pre by (simp_all add: last_kept_def)
  have "myConcurrentMap_findSegment ?c keyHash
          = Inr (spec_route (nat (cmap_concurrency ?c)) (unat keyHash))"
    using c assms(2) by (intro findSegment_constructed) simp_all
  moreover have "spec_route (nat n) (unat keyHash) < nat n - 1"
    using assms(2) by (intro spec_route_less) simp
  ultimately have r: "\<exists>i. myConcurrentMap_findSegment ?c keyHash = Inr i \<and> int i < n - 1"
    using c(1) assms(2) by auto
  from assms(1) have "list_all (built_segment X pr) (cmap_segments c0)"
    by (auto simp: NewConcurrentMap_def split: if_splits outcome.splits
        dest: new_segments_all_built)
  moreover from pre have "cmap_segments c0 \<noteq> []" by auto
  ultimately have "built_segment X pr (last (cmap_segments c0))"
    by (simp add: list_all_iff)
  then have "segment_empty (last (cmap_segments c0))" by (rule built_segment_empty)
  with r c show ?thesis by simp
qed

theorem last_segment_never_used_witness:
  "1 < (3 :: int)
   \<and> (\<exists>c0. NewConcurrentMap example_externals initial_world 3 None
               = Returned initial_world (Some c0, None)
        \<and> (\<exists>i. myConcurrentMap_findSegment
                   (snd (run_ops example_externals (initial_world, c0)
                           [OpPut ''a'' (Some 1), OpGet ''a'', OpDelete ''bb''])) 0x30000 = Inr i
               \<and> int i < 3 - 1)
        \<and> segment_empty
             (last (cmap_segments
                (snd (run_ops example_externals (initial_world, c0)
                        [OpPut ''a'' (Some 1), OpGet ''a'', OpDelete ''bb''])))))"
proof -
  have n: "1 < (3 :: int)" by simp
  let ?c0 = "\<lparr>cmap_concurrency = 3,
              cmap_segments = replicate 3 (fresh_segment example_externals 0),
              cmap_total = 0\<rparr>"
  note t = last_segment_never_used [OF example_NewConcurrentMap n,
      of "[OpPut ''a'' (Some 1), OpGet ''a'', OpDelete ''bb'']" "0x30000"]
  show ?thesis
  proof (intro conjI exI [of _ ?c0])
    show "1 < (3 :: int)" by (rule n)
    show "NewConcurrentMap example_externals initial_world 3 None
            = Returned initial_world (Some ?c0, None)"
      by (rule example_NewConcurrentMap)
  qed (use t in blast)+
qed

section \<open>Get\<close>



lemma find_target_chain:
  "chain h p as \<Longrightarrow> find_target h k p = Some (find (\<lambda>a. pair_key (h a) = k) as)"
proof (induction as arbitrary: p)
  case Nil
  then show ?case by (simp add: find_target.simps)
next
  case (Cons a as)
  then show ?case by (subst find_target.simps) simp
qed


lemma bucket_index_lock [simp]: "bucket_index (s\<lparr>segment_lock := l\<rparr>) h = bucket_index s h"
  by (simp add: bucket_index_def Let_def)







section \<open>Buckets: Put\<close>

lemma chain_Nil_iff: "chain h None as = (as = [])"
  by (cases as) simp_all

lemma chain_Some: "chain h (Some a) as = (\<exists>bs. as = a # bs \<and> chain h (pair_next (h a)) bs)"
  by (cases as) auto

lemma bucket_Put_result:
  assumes "chain (pairs w) (bucket_GetFirstPair b) as"
    and "lock \<noteq> Some True"
    and "pair_element (pairs w p) \<noteq> None"
  shows "bucket_Put w b (Some p) lock =
     (if bucket_GetFirstPair b = None
      then Returned (w, b\<lparr>bucket_firstValue := Some p, bucket_size := bucket_size b + 1\<rparr>)
             (True, None)
      else
        (case find (\<lambda>a. pair_key (pairs w a) = pair_key (pairs w p)) as of
           Some target \<Rightarrow>
             Returned
               (w\<lparr>pairs := (pairs w)
                     (target := (pairs w target)\<lparr>pair_element := pair_element (pairs w p)\<rparr>)\<rparr>,
                b)
               (False, None)
         | None \<Rightarrow>
             Returned
               (w\<lparr>pairs := (pairs w)
                     (p := (pairs w p)\<lparr>pair_next := bucket_GetFirstPair b\<rparr>)\<rparr>,
                b\<lparr>bucket_firstValue := Some p, bucket_size := bucket_size b + 1\<rparr>)
               (True, None)))"
proof (cases "bucket_GetFirstPair b")
  case None
  then show ?thesis using assms(2) by (simp add: bucket_Put_def)
next
  case (Some firstPair)
  with assms(1) have "chain (pairs w) (Some firstPair) as" by simp
  from find_target_chain [OF this, of "pair_key (pairs w p)"]
  have f: "find_target (pairs w) (pair_Key w p) (Some firstPair)
             = Some (find (\<lambda>a. pair_key (pairs w a) = pair_key (pairs w p)) as)"
    by (simp add: pair_Key_def)
  from assms(3) obtain v where v: "pair_element (pairs w p) = Some v" by auto
  show ?thesis
    using Some f v assms(2)
    by (simp add: bucket_Put_def pair_SetElement_def pair_SetNext_def pair_Element_def
        split: option.splits)
qed

text \<open>
  Claim C7: for every bucket whose chain is finite and every non-nil pair \<open>p\<close> (with an
  element, as every pair of the package has; the lock argument nil or free): if the
  chain is empty, \<open>Put\<close> stores \<open>p\<close> as the head, adds one to the size and returns
  true; if a pair with \<open>p\<close>'s key is in the chain, it replaces the element of the first
  such pair in place, changes no link, head or size, and returns false; otherwise it sets
  \<open>p\<close>'s next to the current head, stores \<open>p\<close> as the head, adds one to the size
  and returns true. No error is returned in any of the three cases.
\<close>

theorem bucket_Put_cases:
  assumes "chain (pairs w) (bucket_GetFirstPair b) as"
    and "lock \<noteq> Some True"
    and "pair_element (pairs w p) \<noteq> None"
  shows "bucket_Put w b (Some p) lock =
     (if bucket_GetFirstPair b = None
      then Returned (w, b\<lparr>bucket_firstValue := Some p, bucket_size := bucket_size b + 1\<rparr>)
             (True, None)
      else
        (case find (\<lambda>a. pair_key (pairs w a) = pair_key (pairs w p)) as of
           Some target \<Rightarrow>
             Returned
               (w\<lparr>pairs := (pairs w)
                     (target := (pairs w target)\<lparr>pair_element := pair_element (pairs w p)\<rparr>)\<rparr>,
                b)
               (False, None)
         | None \<Rightarrow>
             Returned
               (w\<lparr>pairs := (pairs w)
                     (p := (pairs w p)\<lparr>pair_next := bucket_GetFirstPair b\<rparr>)\<rparr>,
                b\<lparr>bucket_firstValue := Some p, bucket_size := bucket_size b + 1\<rparr>)
               (True, None)))"
  using assms by (rule bucket_Put_result)

lemma example_chain: "chain (pairs example_world) (bucket_GetFirstPair example_bucket) [3, 2, 1]"
  by (simp add: example_world_def example_bucket_def bucket_GetFirstPair_def placeholder_def)

lemma empty_chain: "chain (pairs example_world) (bucket_GetFirstPair newBucket) []"
  by (simp add: newBucket_def bucket_GetFirstPair_def placeholder_def)

theorem bucket_Put_cases_witness:
  "bucket_Put example_world newBucket (Some 4) None
     = Returned (example_world, \<lparr>bucket_firstValue = Some 4, bucket_size = 1\<rparr>) (True, None)
   \<and> bucket_Put example_world example_bucket (Some 5) None
     = Returned
         (example_world\<lparr>pairs := (pairs example_world)
            (2 := \<lparr>pair_key = ''bb'', pair_hash = 2, pair_element = Some 50,
                   pair_next = Some 1\<rparr>)\<rparr>,
          example_bucket)
         (False, None)
   \<and> bucket_Put example_world example_bucket (Some 4) None
     = Returned
         (example_world\<lparr>pairs := (pairs example_world)
            (4 := \<lparr>pair_key = ''dddd'', pair_hash = 4, pair_element = Some 40,
                   pair_next = Some 3\<rparr>)\<rparr>,
          \<lparr>bucket_firstValue = Some 4, bucket_size = 4\<rparr>)
         (True, None)"
proof -
  have l: "(None :: bool option) \<noteq> Some True" by simp
  have e4: "pair_element (pairs example_world 4) \<noteq> None" by (simp add: example_world_def)
  have e5: "pair_element (pairs example_world 5) \<noteq> None" by (simp add: example_world_def)
  have "bucket_Put example_world newBucket (Some 4) None
     = Returned (example_world, \<lparr>bucket_firstValue = Some 4, bucket_size = 1\<rparr>) (True, None)"
    using bucket_Put_cases [OF empty_chain l e4]
    by (simp add: newBucket_def bucket_GetFirstPair_def placeholder_def)
  moreover have "bucket_Put example_world example_bucket (Some 5) None
     = Returned
         (example_world\<lparr>pairs := (pairs example_world)
            (2 := \<lparr>pair_key = ''bb'', pair_hash = 2, pair_element = Some 50,
                   pair_next = Some 1\<rparr>)\<rparr>,
          example_bucket)
         (False, None)"
    using bucket_Put_cases [OF example_chain l e5]
    by (simp add: example_bucket_def bucket_GetFirstPair_def placeholder_def example_world_def)
  moreover have "bucket_Put example_world example_bucket (Some 4) None
     = Returned
         (example_world\<lparr>pairs := (pairs example_world)
            (4 := \<lparr>pair_key = ''dddd'', pair_hash = 4, pair_element = Some 40,
                   pair_next = Some 3\<rparr>)\<rparr>,
          \<lparr>bucket_firstValue = Some 4, bucket_size = 4\<rparr>)
         (True, None)"
    using bucket_Put_cases [OF example_chain l e4]
    by (simp add: example_bucket_def bucket_GetFirstPair_def placeholder_def example_world_def)
  ultimately show ?thesis by blast
qed

section \<open>Buckets: Delete\<close>

lemma chain_agree:
  "chain h p as \<Longrightarrow> list_all (\<lambda>a. h' a = h a) as \<Longrightarrow> chain h' p as"
  by (induction as arbitrary: p) auto

lemma chain_after:
  "chain h p (as @ t # bs) \<Longrightarrow> chain h (pair_next (h t)) bs"
  by (induction as arbitrary: p) auto

lemma delete_scan_chain:
  "chain h p as \<Longrightarrow>
   delete_scan h k p acc =
     Some (case dropWhile (\<lambda>a. pair_key (h a) \<noteq> k) as of
             [] \<Rightarrow> (acc @ as, None, None)
           | t # post \<Rightarrow> (acc @ takeWhile (\<lambda>a. pair_key (h a) \<noteq> k) as, Some t, pair_next (h t)))"
proof (induction as arbitrary: p acc)
  case Nil
  then show ?case by (simp add: delete_scan.simps)
next
  case (Cons a as)
  then show ?case by (subst delete_scan.simps) (simp cong: list.case_cong)
qed

lemma entries_of_append: "entries_of h (xs @ ys) = entries_of h xs @ entries_of h ys"
  by (simp add: entries_of_def)

lemma entries_of_Cons:
  "entries_of h (a # as) = (pair_key (h a), pair_element (h a)) # entries_of h as"
  by (simp add: entries_of_def)

lemma entries_of_rev: "entries_of h (rev xs) = rev (entries_of h xs)"
  by (simp add: entries_of_def rev_map)

lemma entries_of_agree:
  "list_all (\<lambda>a. h' a = h a) as \<Longrightarrow> entries_of h' as = entries_of h as"
  by (induction as) (simp_all add: entries_of_def)

lemma keys_of_entries: "keys_of h as = map fst (entries_of h as)"
  by (simp add: keys_of_def entries_of_def)

lemma delete_rebuild_copies:
  assumes "list_all (\<lambda>a. a < free w \<and> pair_element (pairs w a) \<noteq> None) rs"
    and "chain (pairs w) nfp post"
    and "list_all (\<lambda>a. a < free w) post"
  shows "\<exists>w' nfp'. delete_rebuild H w rs nfp = Returned w' nfp'
           \<and> free w' = free w + length rs
           \<and> renv w' = renv w
           \<and> (\<forall>a. a < free w \<longrightarrow> pairs w' a = pairs w a)
           \<and> chain (pairs w') nfp' (rev [free w ..< free w + length rs] @ post)
           \<and> entries_of (pairs w') [free w ..< free w + length rs] = entries_of (pairs w) rs"
  using assms
proof (induction rs arbitrary: w nfp post)
  case Nil
  then show ?case by (simp add: entries_of_def)
next
  case (Cons a rest)
  let ?f = "free w"
  from Cons.prems(1) obtain v where v: "pair_element (pairs w a) = Some v"
    and a: "a < ?f" by auto
  let ?w2 = "w\<lparr>free := Suc ?f,
               pairs := (pairs w)
                 (?f := \<lparr>pair_key = pair_key (pairs w a), pair_hash = H (pair_key (pairs w a)),
                         pair_element = Some v, pair_next = nfp\<rparr>)\<rparr>"
  have step: "delete_rebuild H w (a # rest) nfp = delete_rebuild H ?w2 rest (Some ?f)"
    using v by (simp add: pair_Copy_def newPair_def pair_SetNext_def pair_Key_def pair_Element_def)
  have old: "\<And>x. x < ?f \<Longrightarrow> pairs ?w2 x = pairs w x" by simp
  have p1: "list_all (\<lambda>x. x < free ?w2 \<and> pair_element (pairs ?w2 x) \<noteq> None) rest"
    using Cons.prems(1) by (auto simp: list_all_iff)
  have "chain (pairs ?w2) nfp post"
    using Cons.prems(2,3) by (elim chain_agree) (auto simp: list_all_iff)
  then have p2: "chain (pairs ?w2) (Some ?f) (?f # post)" by simp
  have p3: "list_all (\<lambda>x. x < free ?w2) (?f # post)"
    using Cons.prems(3) by (auto simp: list_all_iff)
  from Cons.IH [OF p1 p2 p3] obtain w' nfp'
    where r: "delete_rebuild H ?w2 rest (Some ?f) = Returned w' nfp'"
      and fr: "free w' = free ?w2 + length rest"
      and re: "renv w' = renv ?w2"
      and keep: "\<forall>x. x < free ?w2 \<longrightarrow> pairs w' x = pairs ?w2 x"
      and ch: "chain (pairs w') nfp' (rev [free ?w2 ..< free ?w2 + length rest] @ ?f # post)"
      and en: "entries_of (pairs w') [free ?w2 ..< free ?w2 + length rest]
                 = entries_of (pairs ?w2) rest"
    by blast
  have fw2: "free ?w2 = Suc ?f" by simp
  have "[?f ..< ?f + Suc (length rest)] = ?f # [Suc ?f ..< ?f + Suc (length rest)]"
    by (rule upt_conv_Cons) simp
  then have up: "[?f ..< ?f + length (a # rest)] = ?f # [Suc ?f ..< Suc ?f + length rest]"
    by (simp only: list.size add_Suc_right add_Suc add_0_right)
  have "entries_of (pairs ?w2) rest = entries_of (pairs w) rest"
    using Cons.prems(1) by (intro entries_of_agree) (auto simp: list_all_iff)
  with en have en2: "entries_of (pairs w') [Suc ?f ..< Suc ?f + length rest]
                       = entries_of (pairs w) rest"
    by (simp only: fw2)
  have "pairs w' ?f = pairs ?w2 ?f" using keep by (simp only: fw2)
  then have hd: "(pair_key (pairs w' ?f), pair_element (pairs w' ?f))
                   = (pair_key (pairs w a), pair_element (pairs w a))"
    using v by simp
  have en': "entries_of (pairs w') [?f ..< ?f + length (a # rest)]
               = entries_of (pairs w) (a # rest)"
    by (simp only: up entries_of_Cons en2 hd)
  have ch': "chain (pairs w') nfp' (rev [?f ..< ?f + length (a # rest)] @ post)"
    using ch by (simp only: up fw2 rev.simps append_assoc append_Cons append_Nil)
  have keep': "\<forall>x. x < ?f \<longrightarrow> pairs w' x = pairs w x"
    using keep by simp
  have fr': "free w' = ?f + length (a # rest)"
    using fr by simp
  have re': "renv w' = renv w" using re by simp
  have res: "delete_rebuild H w (a # rest) nfp = Returned w' nfp'"
    using step r by (simp only:)
  show ?case
    by (rule exI [of _ w'], rule exI [of _ nfp']) (intro conjI res fr' re' keep' ch' en')
qed

lemma filter_entries_split:
  assumes "distinct (keys_of h (pre @ t # post))" "pair_key (h t) = k"
  shows "filter (\<lambda>e. fst e \<noteq> k) (entries_of h (pre @ t # post))
           = entries_of h pre @ entries_of h post"
proof -
  from assms have "\<forall>a\<in>set pre. pair_key (h a) \<noteq> k" "\<forall>a\<in>set post. pair_key (h a) \<noteq> k"
    by (fastforce simp: keys_of_def image_iff)+
  then have "filter (\<lambda>e. fst e \<noteq> k) (entries_of h pre) = entries_of h pre"
    "filter (\<lambda>e. fst e \<noteq> k) (entries_of h post) = entries_of h post"
    by (auto simp: entries_of_def filter_map o_def)
  then show ?thesis using assms(2) by (simp add: entries_of_append entries_of_Cons)
qed

lemma bucket_Delete_absent:
  assumes "chain (pairs w) (bucket_GetFirstPair b) as" "lock \<noteq> Some True"
    and "k \<notin> set (keys_of (pairs w) as)"
  shows "bucket_Delete H w b k lock = Returned (w, b) False"
proof (cases "bucket_GetFirstPair b")
  case None
  then show ?thesis using assms(2) by (simp add: bucket_Delete_def)
next
  case (Some firstPair)
  with assms(1) have "chain (pairs w) (Some firstPair) as" by simp
  moreover from assms(3) have "dropWhile (\<lambda>a. pair_key (pairs w a) \<noteq> k) as = []"
    by (auto simp: keys_of_def)
  ultimately have "delete_scan (pairs w) k (Some firstPair) [] = Some (as, None, None)"
    using delete_scan_chain [of "pairs w" "Some firstPair" as k "[]"]
    by (simp only: list.case append_Nil)
  with Some assms(2) show ?thesis by (simp add: bucket_Delete_def)
qed

lemma bucket_Delete_present:
  assumes ch: "chain (pairs w) (bucket_GetFirstPair b) as"
    and ok: "chain_ok w as"
    and lock: "lock \<noteq> Some True"
    and k: "k \<in> set (keys_of (pairs w) as)"
  shows "\<exists>w' b' as'. bucket_Delete H w b k lock = Returned (w', b') True
           \<and> bucket_size b' = bucket_size b - 1
           \<and> as' = rev [free w ..< free w
                          + length (takeWhile (\<lambda>a. pair_key (pairs w a) \<noteq> k) as)]
                    @ tl (dropWhile (\<lambda>a. pair_key (pairs w a) \<noteq> k) as)
           \<and> chain (pairs w') (bucket_GetFirstPair b') as'
           \<and> chain_ok w' as'
           \<and> entries_of (pairs w') as' = filter (\<lambda>e. fst e \<noteq> k) (entries_of (pairs w) as)
           \<and> k \<notin> set (keys_of (pairs w') as')
           \<and> (\<forall>a. a < free w \<longrightarrow> pairs w' a = pairs w a)"
proof -
  let ?P = "\<lambda>a. pair_key (pairs w a) \<noteq> k"
  let ?pre = "takeWhile ?P as"
  let ?f = "free w"
  let ?n = "length ?pre"
  from k have "dropWhile ?P as \<noteq> []"
    by (auto simp: keys_of_def)
  then obtain t post where d: "dropWhile ?P as = t # post" by (cases "dropWhile ?P as") auto
  then have kt: "pair_key (pairs w t) = k" using hd_dropWhile [of ?P as] by auto
  have split: "as = ?pre @ t # post" using d takeWhile_dropWhile_id [of ?P as] by simp
  then have "as \<noteq> []" by auto
  with ch obtain firstPair where first: "bucket_GetFirstPair b = Some firstPair"
    by (cases as) auto
  with ch have ch1: "chain (pairs w) (Some firstPair) as" by simp
  from delete_scan_chain [OF ch1, of k "[]"] d
  have scan: "delete_scan (pairs w) k (Some firstPair) []
                = Some (?pre, Some t, pair_next (pairs w t))"
    by simp
  have chp: "chain (pairs w) (pair_next (pairs w t)) post"
    using ch1 split chain_after [of "pairs w" "Some firstPair" ?pre t post] by simp
  from ok have all: "list_all (\<lambda>a. a \<noteq> placeholder \<and> a < ?f \<and> pair_element (pairs w a) \<noteq> None) as"
    and dist: "distinct (keys_of (pairs w) as)"
    by (simp_all add: chain_ok_def)
  have allpre: "list_all (\<lambda>a. a < ?f \<and> pair_element (pairs w a) \<noteq> None) (rev ?pre)"
    using all split by (auto simp: list_all_iff dest: set_takeWhileD)
  have allpost: "list_all (\<lambda>a. a < ?f) post"
    using all by (subst (asm) split) (auto simp: list_all_iff)
  from delete_rebuild_copies [OF allpre chp allpost, of H] obtain w' nfp'
    where r: "delete_rebuild H w (rev ?pre) (pair_next (pairs w t)) = Returned w' nfp'"
      and fr: "free w' = ?f + ?n"
      and keep: "\<forall>a. a < ?f \<longrightarrow> pairs w' a = pairs w a"
      and ch': "chain (pairs w') nfp' (rev [?f ..< ?f + ?n] @ post)"
      and en: "entries_of (pairs w') [?f ..< ?f + ?n] = entries_of (pairs w) (rev ?pre)"
    by auto
  let ?as' = "rev [?f ..< ?f + ?n] @ post"
  let ?b' = "b\<lparr>bucket_firstValue := (case nfp' of Some n \<Rightarrow> Some n | None \<Rightarrow> Some placeholder),
               bucket_size := bucket_size b + (- 1)\<rparr>"
  have res: "bucket_Delete H w b k lock = Returned (w', ?b') True"
    using first scan r lock by (simp add: bucket_Delete_def)
  have fpos: "?n > 0 \<Longrightarrow> 0 < ?f"
  proof -
    assume "?n > 0"
    then obtain a where "a \<in> set (rev ?pre)" by (cases ?pre) auto
    with allpre have "a < ?f" by (auto simp: list_all_iff)
    then show ?thesis by simp
  qed
  have noph: "list_all (\<lambda>a. a \<noteq> placeholder) ?as'"
  proof -
    have "list_all (\<lambda>a. a \<noteq> placeholder) post"
      using all by (subst (asm) split) (auto simp: list_all_iff)
    moreover have "list_all (\<lambda>a. a \<noteq> placeholder) (rev [?f ..< ?f + ?n])"
    proof -
      have "x \<noteq> placeholder" if "x \<in> set [?f ..< ?f + ?n]" for x
      proof -
        from that have "?f \<le> x" "0 < ?n" by auto
        with fpos show ?thesis by (simp add: placeholder_def)
      qed
      then show ?thesis by (simp add: list_all_iff)
    qed
    ultimately show ?thesis by simp
  qed
  have first': "bucket_GetFirstPair ?b' = nfp'"
  proof (cases nfp')
    case None
    then show ?thesis by (simp add: bucket_GetFirstPair_def)
  next
    case (Some x)
    with ch' obtain xs where "?as' = x # xs" by (auto simp: chain_Some)
    then have "x \<in> set ?as'" by (metis list.set_intros(1))
    with noph have "x \<noteq> placeholder" unfolding list_all_iff by blast
    with Some show ?thesis by (simp add: bucket_GetFirstPair_def)
  qed
  have agree_post: "list_all (\<lambda>a. pairs w' a = pairs w a) post"
    using allpost keep by (auto simp: list_all_iff)
  have ent: "entries_of (pairs w') ?as' = entries_of (pairs w) ?pre @ entries_of (pairs w) post"
    using en entries_of_agree [OF agree_post]
    by (simp add: entries_of_append entries_of_rev)
  also have "\<dots> = filter (\<lambda>e. fst e \<noteq> k) (entries_of (pairs w) as)"
    using filter_entries_split [of "pairs w" ?pre t post k] dist split kt by simp
  finally have ent': "entries_of (pairs w') ?as'
                        = filter (\<lambda>e. fst e \<noteq> k) (entries_of (pairs w) as)" .
  then have keys': "keys_of (pairs w') ?as' = filter (\<lambda>x. x \<noteq> k) (keys_of (pairs w) as)"
    by (simp add: keys_of_entries filter_map o_def)
  then have notin: "k \<notin> set (keys_of (pairs w') ?as')" by simp
  have dist': "distinct (keys_of (pairs w') ?as')"
    using keys' dist by simp
  have elems: "list_all (\<lambda>a. a < free w' \<and> pair_element (pairs w' a) \<noteq> None) ?as'"
  proof -
    have "list_all (\<lambda>a. a < ?f \<and> pair_element (pairs w a) \<noteq> None) post"
      using all by (subst (asm) split) (auto simp: list_all_iff)
    then have "list_all (\<lambda>a. a < free w' \<and> pair_element (pairs w' a) \<noteq> None) post"
      unfolding list_all_iff using keep fr by (simp add: trans_less_add1)
    moreover have "list_all (\<lambda>e. snd e \<noteq> None) (entries_of (pairs w) (rev ?pre))"
      using allpre by (auto simp: list_all_iff entries_of_def)
    then have "list_all (\<lambda>e. snd e \<noteq> None) (entries_of (pairs w') [?f ..< ?f + ?n])"
      using en by simp
    then have "list_all (\<lambda>a. a < free w' \<and> pair_element (pairs w' a) \<noteq> None) [?f ..< ?f + ?n]"
      using fr by (auto simp: list_all_iff entries_of_def)
    ultimately show ?thesis by (simp add: list_all_iff) blast
  qed
  have ok': "chain_ok w' ?as'"
    using noph elems dist' by (auto simp: chain_ok_def list_all_iff)
  have tl: "tl (dropWhile ?P as) = post" using d by simp
  have sz: "bucket_size ?b' = bucket_size b - 1" by simp
  show ?thesis
    by (rule exI [of _ w'], rule exI [of _ ?b'], rule exI [of _ ?as'])
      (use res sz tl first' ch' ok' ent' notin keep in \<open>simp only: simp_thms\<close>)
qed

text \<open>
  Claim C3: for every bucket whose chain is finite and made of pairs as the package
  builds them (the lock argument nil or free), and every key \<open>k\<close>: if \<open>k\<close> is not in
  the chain, \<open>Delete\<close> returns false and leaves store and bucket, size included, as
  they were. If \<open>k\<close> is in the chain, \<open>Delete\<close> returns true with the size one less;
  the new chain consists of freshly allocated copies of the predecessors of the target,
  in their order, followed by the very pairs that came after the target; its entries are
  the old entries without the one for \<open>k\<close>; and no pair that existed before is
  modified.
\<close>

theorem bucket_Delete_cases:
  assumes "chain (pairs w) (bucket_GetFirstPair b) as"
    and "chain_ok w as"
    and "lock \<noteq> Some True"
  shows "(k \<notin> set (keys_of (pairs w) as) \<longrightarrow>
            bucket_Delete H w b k lock = Returned (w, b) False)
       \<and> (k \<in> set (keys_of (pairs w) as) \<longrightarrow>
            (\<exists>w' b' as'. bucket_Delete H w b k lock = Returned (w', b') True
               \<and> bucket_size b' = bucket_size b - 1
               \<and> as' = rev [free w ..< free w
                              + length (takeWhile (\<lambda>a. pair_key (pairs w a) \<noteq> k) as)]
                        @ tl (dropWhile (\<lambda>a. pair_key (pairs w a) \<noteq> k) as)
               \<and> chain (pairs w') (bucket_GetFirstPair b') as'
               \<and> chain_ok w' as'
               \<and> entries_of (pairs w') as'
                    = filter (\<lambda>e. fst e \<noteq> k) (entries_of (pairs w) as)
               \<and> k \<notin> set (keys_of (pairs w') as')
               \<and> (\<forall>a. a < free w \<longrightarrow> pairs w' a = pairs w a)))"
  using bucket_Delete_absent [OF assms(1,3), of k H]
    bucket_Delete_present [OF assms, of k H]
  by blast

lemma example_chain_ok: "chain_ok example_world [3, 2, 1]"
  by (simp add: chain_ok_def keys_of_def example_world_def placeholder_def)

theorem bucket_Delete_cases_witness:
  "chain (pairs example_world) (bucket_GetFirstPair example_bucket) [3, 2, 1]
   \<and> chain_ok example_world [3, 2, 1]
   \<and> bucket_Delete example_hash example_world example_bucket ''zz'' None
       = Returned (example_world, example_bucket) False
   \<and> (\<exists>w' b'. bucket_Delete example_hash example_world example_bucket ''bb'' None
                  = Returned (w', b') True
          \<and> bucket_size b' = 2
          \<and> chain (pairs w') (bucket_GetFirstPair b') [6, 1]
          \<and> entries_of (pairs w') [6, 1] = [(''ccc'', Some 30), (''a'', Some 10)]
          \<and> pairs w' 3 = pairs example_world 3)"
proof -
  have l: "(None :: bool option) \<noteq> Some True" by simp
  note t = bucket_Delete_cases [OF example_chain example_chain_ok l]
  have nz: "''zz'' \<notin> set (keys_of (pairs example_world) [3, 2, 1])"
    and bb: "''bb'' \<in> set (keys_of (pairs example_world) [3, 2, 1])"
    by (simp_all add: keys_of_def example_world_def)
  have ents: "entries_of (pairs example_world) [3, 2, 1]
                = [(''ccc'', Some 30), (''bb'', Some 20), (''a'', Some 10)]"
    by (simp add: entries_of_def example_world_def)
  have tw: "takeWhile (\<lambda>a. pair_key (pairs example_world a) \<noteq> ''bb'') [3, 2, 1] = [3]"
    "dropWhile (\<lambda>a. pair_key (pairs example_world a) \<noteq> ''bb'') [3, 2, 1] = [2, 1]"
    by (simp_all add: example_world_def)
  have fr: "free example_world = 6" by (simp add: example_world_def)
  have up: "[6 ..< 6 + length [3 :: nat]] = [6 :: nat]"
    by (simp add: upt_rec)
  have absent: "bucket_Delete example_hash example_world example_bucket ''zz'' None
                  = Returned (example_world, example_bucket) False"
    using t [of "''zz''" example_hash] nz by blast
  from t [of "''bb''" example_hash] obtain w' b' as'
    where r: "bucket_Delete example_hash example_world example_bucket ''bb'' None
                = Returned (w', b') True"
      and sz: "bucket_size b' = bucket_size example_bucket - 1"
      and as': "as' = rev [free example_world ..< free example_world
                        + length (takeWhile (\<lambda>a. pair_key (pairs example_world a) \<noteq> ''bb'')
                                    [3, 2, 1])]
                      @ tl (dropWhile (\<lambda>a. pair_key (pairs example_world a) \<noteq> ''bb'') [3, 2, 1])"
      and ch: "chain (pairs w') (bucket_GetFirstPair b') as'"
      and en: "entries_of (pairs w') as'
                 = filter (\<lambda>e. fst e \<noteq> ''bb'') (entries_of (pairs example_world) [3, 2, 1])"
      and keep: "\<forall>a. a < free example_world \<longrightarrow> pairs w' a = pairs example_world a"
    using bb by blast
  from as' have a: "as' = [6, 1]" by (simp only: tw fr up) simp
  from sz have sz': "bucket_size b' = 2" by (simp add: example_bucket_def)
  have "filter (\<lambda>e. fst e \<noteq> ''bb'') (entries_of (pairs example_world) [3, 2, 1])
          = [(''ccc'', Some 30), (''a'', Some 10)]"
    by (simp only: ents) simp
  with en have en': "entries_of (pairs w') [6, 1] = [(''ccc'', Some 30), (''a'', Some 10)]"
    by (simp only: a)
  from keep have k3: "pairs w' 3 = pairs example_world 3" by (simp add: fr)
  from r sz' ch [unfolded a] en' k3
  have "\<exists>w' b'. bucket_Delete example_hash example_world example_bucket ''bb'' None
                  = Returned (w', b') True
          \<and> bucket_size b' = 2
          \<and> chain (pairs w') (bucket_GetFirstPair b') [6, 1]
          \<and> entries_of (pairs w') [6, 1] = [(''ccc'', Some 30), (''a'', Some 10)]
          \<and> pairs w' 3 = pairs example_world 3"
    by blast
  with example_chain example_chain_ok absent show ?thesis by blast
qed

section \<open>Panics of the redistributor\<close>













section \<open>Buckets: Put followed by Get\<close>

lemma find_None_key:
  "find (\<lambda>a. pair_key (h a) = k) as = None \<Longrightarrow> k \<notin> set (keys_of h as)"
  by (induction as) (auto simp: keys_of_def split: if_splits)

lemma chain_element_update:
  "chain h p as \<Longrightarrow> chain (h(t := (h t)\<lparr>pair_element := e\<rparr>)) p as"
  by (induction as arbitrary: p) auto

lemma keys_of_element_update:
  "keys_of (h(t := (h t)\<lparr>pair_element := e\<rparr>)) as = keys_of h as"
  by (induction as) (auto simp: keys_of_def)

text \<open>
  What a put stores, a get finds: after \<open>Put\<close> of a pair fresh from \<open>newPair\<close> into
  a well-formed bucket, the chain is again well formed, and \<open>Get\<close> of the pair's key
  returns a pair that carries the pair's element.
\<close>

lemma bucket_Put_then_Get:
  assumes ch: "chain (pairs w) (bucket_GetFirstPair b) as"
    and ok: "chain_ok w as"
    and lock: "lock \<noteq> Some True"
    and p: "p \<noteq> placeholder" "p < free w" "pair_element (pairs w p) \<noteq> None"
      "pair_next (pairs w p) = None" "p \<notin> set as"
  shows "\<exists>w' b' r as' t.
           bucket_Put w b (Some p) lock = Returned (w', b') r
           \<and> chain (pairs w') (bucket_GetFirstPair b') as'
           \<and> chain_ok w' as'
           \<and> bucket_Get w' b' (pair_key (pairs w p)) = Returned (w', b') (Some t)
           \<and> pair_element (pairs w' t) = pair_element (pairs w p)"
proof -
  let ?k = "pair_key (pairs w p)"
  note put = bucket_Put_result [OF ch lock p(3)]
  from ok have all: "list_all (\<lambda>a. a \<noteq> placeholder \<and> a < free w
                                \<and> pair_element (pairs w a) \<noteq> None) as"
    and dist: "distinct (keys_of (pairs w) as)"
    by (simp_all add: chain_ok_def)
  show ?thesis
  proof (cases "bucket_GetFirstPair b")
    case None
    with ch have as: "as = []" by (simp add: chain_Nil_iff)
    let ?b' = "b\<lparr>bucket_firstValue := Some p, bucket_size := bucket_size b + 1\<rparr>"
    from put None have r: "bucket_Put w b (Some p) lock = Returned (w, ?b') (True, None)" by simp
    have g: "bucket_GetFirstPair ?b' = Some p" using p(1) by (simp add: bucket_GetFirstPair_def)
    have c: "chain (pairs w) (bucket_GetFirstPair ?b') [p]" using g p(4) by simp
    have o: "chain_ok w [p]" using p by (simp add: chain_ok_def keys_of_def)
    from find_target_chain [OF c [unfolded g], of ?k]
    have "bucket_Get w ?b' ?k = Returned (w, ?b') (Some p)"
      using g by (simp add: bucket_Get_def)
    with r c o show ?thesis by blast
  next
    case (Some firstPair)
    show ?thesis
    proof (cases "find (\<lambda>a. pair_key (pairs w a) = ?k) as")
      case None
      let ?w' = "w\<lparr>pairs := (pairs w)(p := (pairs w p)\<lparr>pair_next := bucket_GetFirstPair b\<rparr>)\<rparr>"
      let ?b' = "b\<lparr>bucket_firstValue := Some p, bucket_size := bucket_size b + 1\<rparr>"
      from put Some None
      have r: "bucket_Put w b (Some p) lock = Returned (?w', ?b') (True, None)" by simp
      have g: "bucket_GetFirstPair ?b' = Some p" using p(1) by (simp add: bucket_GetFirstPair_def)
      let ?h' = "(pairs w)(p := (pairs w p)\<lparr>pair_next := bucket_GetFirstPair b\<rparr>)"
      have agree: "list_all (\<lambda>a. ?h' a = pairs w a) as"
        using p(5) by (auto simp: list_all_iff)
      have "chain ?h' (bucket_GetFirstPair b) as"
        using ch agree by (rule chain_agree)
      then have "chain (pairs ?w') (Some p) (p # as)" by simp
      then have c: "chain (pairs ?w') (bucket_GetFirstPair ?b') (p # as)" by (simp only: g)
      have kk: "keys_of (pairs ?w') (p # as) = ?k # keys_of (pairs w) as"
        using p(5) by (auto simp: keys_of_def)
      have o: "chain_ok ?w' (p # as)"
        using all dist p find_None_key [OF None] kk
        by (auto simp: chain_ok_def list_all_iff)
      from find_target_chain [OF c [unfolded g], of ?k]
      have "bucket_Get ?w' ?b' ?k = Returned (?w', ?b') (Some p)"
        using g by (simp add: bucket_Get_def)
      moreover have "pair_element (pairs ?w' p) = pair_element (pairs w p)" by simp
      ultimately show ?thesis using r c o by blast
    next
      case (Some t)
      let ?w' = "w\<lparr>pairs := (pairs w)
                     (t := (pairs w t)\<lparr>pair_element := pair_element (pairs w p)\<rparr>)\<rparr>"
      from put \<open>bucket_GetFirstPair b = Some firstPair\<close> Some
      have r: "bucket_Put w b (Some p) lock = Returned (?w', b) (False, None)" by simp
      from chain_element_update [OF ch, of t "pair_element (pairs w p)"]
      have c: "chain (pairs ?w') (bucket_GetFirstPair b) as" by simp
      have o: "chain_ok ?w' as"
        using all dist p(3) by (auto simp: chain_ok_def list_all_iff keys_of_element_update)
      have "(\<lambda>a. pair_key (pairs ?w' a) = ?k) = (\<lambda>a. pair_key (pairs w a) = ?k)"
        by (auto simp: fun_eq_iff)
      then have f: "find (\<lambda>a. pair_key (pairs ?w' a) = ?k) as = Some t"
        using Some by (simp only:)
      from find_target_chain [OF c [unfolded \<open>bucket_GetFirstPair b = Some firstPair\<close>], of ?k]
      have "bucket_Get ?w' b ?k = Returned (?w', b) (Some t)"
        using \<open>bucket_GetFirstPair b = Some firstPair\<close> f by (simp add: bucket_Get_def)
      moreover have "pair_element (pairs ?w' t) = pair_element (pairs w p)" by simp
      ultimately show ?thesis using r c o by blast
    qed
  qed
qed

section \<open>Put on the example segment\<close>

text \<open>
  On the example segment: the pair 4 goes into bucket 0, the total grows to 2, and the
  call is stuck on the second \<open>Lock\<close> with the lock held.
\<close>

lemma example_segment_Put_blocks:
  "segment_Put example_externals example_world example_segment (Some 4)
     = Blocked
         (example_world,
          \<lparr>segment_buckets =
             [\<lparr>bucket_firstValue = Some 4, bucket_size = 1\<rparr>,
              \<lparr>bucket_firstValue = Some 1, bucket_size = 1\<rparr>, newBucket, newBucket],
           segment_bucketsLen = 4,
           segment_pairTotal = 2,
           segment_pairRedistributor = 0,
           segment_lock = True\<rparr>)"
proof -
  have i: "bucket_index example_segment (pair_Hash example_world 4) = Inr 0"
    by (simp add: bucket_index_def example_segment_def pair_Hash_def example_world_def)
  have b: "bucket_Put example_world newBucket (Some 4) None
             = Returned (example_world, \<lparr>bucket_firstValue = Some 4, bucket_size = 1\<rparr>) (True, None)"
    by (simp add: bucket_Put_def bucket_GetFirstPair_def newBucket_def)
  have r: "segment_redistribute example_externals example_world s t n = Returned (example_world, s) None"
    for s t n
    by (simp add: segment_redistribute_def example_externals_def)
  have z: "segment_buckets example_segment ! 0 = newBucket"
    and l: "\<not> segment_lock example_segment"
    by (simp_all add: example_segment_def)
  show ?thesis
    by (simp add: segment_Put_def mutex_Lock_def i z l b r Let_def put_bucket_def)
      (simp add: example_segment_def)
qed

end
